theory Spec2Isabelle
  imports Complex_Main "HOL-Library.Word"
begin

section \<open>The password generator of script.js\<close>

text \<open>
  The generation core of \<^verbatim>\<open>script.js\<close>: the random selector
  \<^verbatim>\<open>secureRandomInt\<close>, the pool builder \<^verbatim>\<open>buildCharPool\<close>, the
  password builder \<^verbatim>\<open>generatePlain\<close>, the strength estimator
  (\<^verbatim>\<open>estimateEntropyBits\<close>, \<^verbatim>\<open>strengthFromEntropy\<close>) and the part of
  \<^verbatim>\<open>generateHandler\<close> that reads and clamps the length.

  What the functions read from the browser is made a parameter:
  \<^item> the five checkboxes (\<^verbatim>\<open>optUpper.checked\<close>, ...) are a record of booleans;
  \<^item> \<^verbatim>\<open>window.crypto.getRandomValues\<close> and \<^verbatim>\<open>Math.random\<close> are
    sequences of values, and the state threaded through the functions is the number of
    values drawn so far;
  \<^item> a thrown exception is a value \<open>Inl e\<close>, and a call that never returns is
    \<open>None\<close>. The state after an exception is not recorded.
  Logging (\<^verbatim>\<open>Log.warn\<close> in the fallback branch of \<^verbatim>\<open>secureRandomInt\<close>,
  \<^verbatim>\<open>Log.error\<close> in the handler) is not modelled.
\<close>

subsection \<open>Constants\<close>

record char_classes =
  upper :: string
  lower :: string
  numbers :: string
  symbols :: string

definition CHAR_sets :: char_classes where
  "CHAR_sets = \<lparr> upper = ''ABCDEFGHIJKLMNOPQRSTUVWXYZ'',
            lower = ''abcdefghijklmnopqrstuvwxyz'',
            numbers = ''0123456789'',
            symbols = ''!@#$%^&*()_+[]{}|;:,.<>?'' \<rparr>"

text \<open>
  \<^verbatim>\<open>AMBIGUOUS = /[O0Il]/g\<close> is a character class; it is kept as the list of its
  members. \<^verbatim>\<open>pool.replace(AMBIGUOUS, '')\<close> deletes every character that matches
  (the regular expression is global, and \<^verbatim>\<open>replace\<close> starts at index 0 each time).
\<close>

definition AMBIGUOUS :: string where
  "AMBIGUOUS = ''O0Il''"

definition replace_class :: "string \<Rightarrow> string \<Rightarrow> string" where
  "replace_class cls s = filter (\<lambda>c. c \<notin> set cls) s"

subsection \<open>Numbers, errors and the browser\<close>

text \<open>
  The handler computes with the results of \<^verbatim>\<open>parseInt\<close>, which are integers or
  \<^verbatim>\<open>NaN\<close>.
\<close>

datatype number = NaN | Num int

text \<open>
  The exceptions of the core: \<^verbatim>\<open>Error('Range must be > 0')\<close>,
  \<^verbatim>\<open>Error('No character sets selected')\<close>, the \<^verbatim>\<open>RangeError\<close> of
  \<^verbatim>\<open>new Array(length)\<close> for a length that is not an integer in \<open>[0, 2^32)\<close>,
  and the \<^verbatim>\<open>RangeError\<close> of \<^verbatim>\<open>join\<close> for a result longer than the engine's
  strings can be.
\<close>

datatype error = InvalidRange | EmptyPool | InvalidArrayLength | InvalidStringLength

subsection \<open>Double arithmetic\<close>

text \<open>
  A JavaScript number is a double. The integers of the core are computed exactly; the one
  rounded operation is the product \<^verbatim>\<open>Math.random() * range\<close> of the fallback. A
  finite double is a rational number, and \<open>to_double\<close> rounds a rational to the
  nearest double, ties to the even mantissa: \<open>double_exponent a\<close> is the exponent
  \<open>e\<close> with \<open>2^e \<le> a < 2^(e+1)\<close>, kept within \<open>-1022 .. 1023\<close> (below
  \<open>2^-1022\<close> the doubles are subnormal), and the doubles of that exponent are the
  multiples of \<open>2^(e-52)\<close>; \<open>find_exp\<close> tries the exponents from 1023 downwards.
  Overflow to \<^verbatim>\<open>Infinity\<close> is not modelled: the product of a value below 1 and a
  double is below the largest double.
\<close>

definition round_half_even :: "rat \<Rightarrow> int" where
  "round_half_even y =
     (let f = \<lfloor>y\<rfloor>; d = y - of_int f
      in if d < 1/2 then f else if 1/2 < d then f + 1 else if even f then f else f + 1)"

fun find_exp :: "nat \<Rightarrow> rat \<Rightarrow> int" where
  "find_exp 0 a = - 1022"
| "find_exp (Suc k) a =
     (if 2 powi (int (Suc k) - 1022) \<le> a then int (Suc k) - 1022 else find_exp k a)"

definition double_exponent :: "rat \<Rightarrow> int" where
  "double_exponent a = find_exp 2045 a"

definition to_double :: "rat \<Rightarrow> rat" where
  "to_double x =
     (if x = 0 then 0
      else let ulp = 2 powi (double_exponent \<bar>x\<bar> - 52)
           in of_int (round_half_even (x / ulp)) * ulp)"

text \<open>
  \<open>crypto\<close> is \<open>None\<close> when \<^verbatim>\<open>window.crypto\<close> or its
  \<^verbatim>\<open>getRandomValues\<close> is missing; otherwise it gives the 32-bit value that the
  \<open>n\<close>-th call writes into the \<^verbatim>\<open>Uint32Array(1)\<close>. \<open>mathRandom\<close> gives the
  value of the \<open>n\<close>-th call of \<^verbatim>\<open>Math.random()\<close>; a double is a rational
  number. \<open>maxStringLength\<close> is the length of the longest string the engine builds
  (\<open>2^29 - 24\<close> in V8 on 64 bits, \<open>2^30 - 2\<close> in SpiderMonkey; the language allows up
  to \<open>2^53 - 1\<close>); the strings of the core other than the password have at most 86
  characters. Running out of memory is not modelled.
\<close>

record window =
  crypto :: "(nat \<Rightarrow> 32 word) option"
  mathRandom :: "nat \<Rightarrow> rat"
  maxStringLength :: nat

record options =
  optUpper :: bool
  optLower :: bool
  optNumbers :: bool
  optSymbols :: bool
  optExclude :: bool

subsection \<open>secureRandomInt\<close>

text \<open>
  The parameter \<^verbatim>\<open>range\<close> is written \<open>range'\<close>, and \<^verbatim>\<open>length\<close> is
  written \<open>len\<close>: \<open>range\<close> and \<open>length\<close> are constants of HOL. For the same
  reason \<^verbatim>\<open>CHAR\<close> is \<open>CHAR_sets\<close>. The range is an integer, as in every call of
  the repository; in the fallback branch the product with \<^verbatim>\<open>Math.random()\<close> is
  rounded to a double before \<^verbatim>\<open>Math.floor\<close>.
\<close>

text \<open>
  The local constants \<^verbatim>\<open>bucketSize\<close> and \<^verbatim>\<open>limit\<close> are functions of the
  range. For an integer range up to \<open>2^32\<close> the floor of the double quotient
  \<^verbatim>\<open>(maxUint + 1) / range\<close> is the integer quotient, and the product and
  \<^verbatim>\<open>%\<close> are exact (every value is an integer below \<open>2^53\<close>); for a larger
  integer range the quotient is below 1 and its floor is 0, as here.

  The \<^verbatim>\<open>do { getRandomValues(arr); rand = arr[0] } while (rand >= limit)\<close> loop.
  It returns the accepted draw and the new count of draws; it is \<open>None\<close> when
  every draw from position \<open>s\<close> on is rejected.
\<close>

partial_function (option) drawLoop :: "(nat \<Rightarrow> 32 word) \<Rightarrow> int \<Rightarrow> nat \<Rightarrow> (int \<times> nat) option" where
  "drawLoop getRandomValues lmt s =
     (let rand = uint (getRandomValues s)
      in if rand \<ge> lmt then drawLoop getRandomValues lmt (Suc s)
         else Some (rand, Suc s))"

declare drawLoop.simps [code]

definition bucketSize :: "int \<Rightarrow> int" where
  "bucketSize range' = (let maxUint = 4294967295 in (maxUint + 1) div range')"

definition limit :: "int \<Rightarrow> int" where
  "limit range' = bucketSize range' * range'"

definition secureRandomInt :: "window \<Rightarrow> int \<Rightarrow> nat \<Rightarrow> (error + int \<times> nat) option" where
  "secureRandomInt w range' s =
     (case crypto w of
        None \<Rightarrow> Some (Inr (\<lfloor>to_double (mathRandom w s * of_int range')\<rfloor>, Suc s))
      | Some getRandomValues \<Rightarrow>
          if range' \<le> 0 then Some (Inl InvalidRange)
          else (case drawLoop getRandomValues (limit range') s of
                  None \<Rightarrow> None
                | Some (rand, s') \<Rightarrow> Some (Inr (rand mod range', s'))))"

subsection \<open>buildCharPool and generatePlain\<close>

definition buildCharPool :: "options \<Rightarrow> string" where
  "buildCharPool opts =
     (let pool = '''';
          pool = (if optUpper opts then pool @ upper CHAR_sets else pool);
          pool = (if optLower opts then pool @ lower CHAR_sets else pool);
          pool = (if optNumbers opts then pool @ numbers CHAR_sets else pool);
          pool = (if optSymbols opts then pool @ symbols CHAR_sets else pool);
          pool = (if optExclude opts then replace_class AMBIGUOUS pool else pool)
      in pool)"

text \<open>
  \<^verbatim>\<open>pool.charAt(idx)\<close> is the one-character string at \<open>idx\<close>, and the empty
  string when \<open>idx\<close> is out of range.
\<close>

definition charAt :: "string \<Rightarrow> int \<Rightarrow> string" where
  "charAt s idx = (if 0 \<le> idx \<and> idx < int (length s) then [s ! nat idx] else [])"

text \<open>
  \<^verbatim>\<open>new Array(length)\<close>: an array of \<open>length\<close> holes, which
  \<^verbatim>\<open>join('')\<close> reads as empty strings, or a \<^verbatim>\<open>RangeError\<close>.
\<close>

definition newArray :: "number \<Rightarrow> error + string list" where
  "newArray len =
     (case len of
        NaN \<Rightarrow> Inl InvalidArrayLength
      | Num n \<Rightarrow> if n < 0 \<or> 4294967296 \<le> n then Inl InvalidArrayLength
                 else Inr (replicate (nat n) []))"

text \<open>
  The \<^verbatim>\<open>for (let i = 0; i < length; i++)\<close> loop of \<^verbatim>\<open>generatePlain\<close>.
  The array has \<open>len\<close> elements, so every write \<^verbatim>\<open>out[i] = ...\<close> of the loop is
  within it.
\<close>

function fillLoop :: "window \<Rightarrow> string \<Rightarrow> nat \<Rightarrow> nat \<Rightarrow> string list \<Rightarrow> nat \<Rightarrow> (error + string list \<times> nat) option" where
  "fillLoop w pool len i out s =
     (if i < len then
        (case secureRandomInt w (int (length pool)) s of
           None \<Rightarrow> None
         | Some (Inl e) \<Rightarrow> Some (Inl e)
         | Some (Inr (idx, s')) \<Rightarrow> fillLoop w pool len (Suc i) (out[i := charAt pool idx]) s')
      else Some (Inr (out, s)))"
  by pat_completeness auto
termination
  by (relation "measure (\<lambda>(w, pool, len, i, out, s). len - i)") auto

declare fillLoop.simps [simp del]

text \<open>
  \<^verbatim>\<open>out.join('')\<close>: the concatenation of the elements, or a \<^verbatim>\<open>RangeError\<close>
  when it would be longer than the engine's strings can be.
\<close>

definition join :: "window \<Rightarrow> string list \<Rightarrow> error + string" where
  "join w out =
     (if maxStringLength w < length (concat out) then Inl InvalidStringLength
      else Inr (concat out))"

definition generatePlain :: "window \<Rightarrow> options \<Rightarrow> number \<Rightarrow> nat \<Rightarrow> (error + string \<times> nat) option" where
  "generatePlain w opts len s =
     (let pool = buildCharPool opts
      in if pool = [] then Some (Inl EmptyPool)
         else (case newArray len of
                 Inl e \<Rightarrow> Some (Inl e)
               | Inr out \<Rightarrow>
                   (case fillLoop w pool (length out) 0 out s of
                      None \<Rightarrow> None
                    | Some (Inl e) \<Rightarrow> Some (Inl e)
                    | Some (Inr (out', s')) \<Rightarrow>
                        (case join w out' of
                           Inl e \<Rightarrow> Some (Inl e)
                         | Inr pw \<Rightarrow> Some (Inr (pw, s'))))))"

subsection \<open>The strength estimator\<close>

text \<open>
  \<^verbatim>\<open>new Set(buildCharPool()).size\<close> counts the distinct characters of the pool.
  The entropy is a real number here; the rounding of \<^verbatim>\<open>Math.log2\<close> and of the
  product is not modelled.
\<close>

definition estimateEntropyBits :: "options \<Rightarrow> string \<Rightarrow> real" where
  "estimateEntropyBits opts password =
     (let poolSize = length (remdups (buildCharPool opts))
      in if poolSize = 0 then 0
         else real (length password) * log 2 (real poolSize))"

record strength =
  label :: string
  color :: string
  pct :: nat

definition strengthFromEntropy :: "real \<Rightarrow> strength" where
  "strengthFromEntropy bits =
     (if bits < 28 then \<lparr> label = ''Very weak'', color = ''#ff6b6b'', pct = 20 \<rparr>
      else if bits < 40 then \<lparr> label = ''Weak'', color = ''#ff8a4a'', pct = 40 \<rparr>
      else if bits < 60 then \<lparr> label = ''Moderate'', color = ''#ffd54d'', pct = 60 \<rparr>
      else if bits < 80 then \<lparr> label = ''Strong'', color = ''#8be58b'', pct = 80 \<rparr>
      else \<lparr> label = ''Very strong'', color = ''#2bd39b'', pct = 100 \<rparr>)"

subsection \<open>generateHandler\<close>

text \<open>
  \<^verbatim>\<open>a || b\<close> on numbers: \<open>b\<close> when \<open>a\<close> is \<^verbatim>\<open>NaN\<close> or 0.
  \<^verbatim>\<open>Math.min\<close> and \<^verbatim>\<open>Math.max\<close> are \<^verbatim>\<open>NaN\<close> when an argument is.
\<close>

definition js_or :: "number \<Rightarrow> number \<Rightarrow> number" where
  "js_or a b = (case a of NaN \<Rightarrow> b | Num n \<Rightarrow> if n = 0 then b else a)"

definition Math_min :: "int \<Rightarrow> number \<Rightarrow> number" where
  "Math_min a b = (case b of NaN \<Rightarrow> NaN | Num n \<Rightarrow> Num (min a n))"

definition Math_max :: "int \<Rightarrow> number \<Rightarrow> number" where
  "Math_max a b = (case b of NaN \<Rightarrow> NaN | Num n \<Rightarrow> Num (max a n))"

text \<open>
  The handler takes \<^verbatim>\<open>parseInt(lengthNumber.value)\<close> and
  \<^verbatim>\<open>parseInt(lengthRange.value)\<close> as its two inputs. Its result records the
  length it wrote back into both fields and what \<^verbatim>\<open>generatePlain\<close> did: a password
  (stored in \<^verbatim>\<open>lastGenerated\<close>) with the count of random values drawn, or an
  exception, which the \<^verbatim>\<open>catch\<close> block turns into the alert. The reveal animation,
  the strength display and the history are not modelled.
\<close>

record handled =
  fieldValue :: number
  outcome :: "error + string \<times> nat"

definition generateHandler :: "window \<Rightarrow> options \<Rightarrow> number \<Rightarrow> number \<Rightarrow> nat \<Rightarrow> handled option" where
  "generateHandler w opts lengthNumber lengthRange s =
     (let len = Math_max 6 (Math_min 64 (js_or lengthNumber lengthRange))
      in case generatePlain w opts len s of
           None \<Rightarrow> None
         | Some r \<Rightarrow> Some \<lparr> fieldValue = len, outcome = r \<rparr>)"

subsection \<open>The pool as the specification words it\<close>

text \<open>
  The specification's data model: a character class is one of four categories, each
  with a fixed sequence of characters, and the pool is the concatenation of the enabled
  classes in the declared order, with the ambiguous characters \<open>O\<close>, \<open>0\<close>, \<open>I\<close>
  and \<open>l\<close> filtered out when the flag is set. This definition follows the
  specification; \<open>buildCharPool\<close> above follows the code.
\<close>

datatype CharacterClass = Uppercase | Lowercase | Digit | Symbol

definition declared_order :: "CharacterClass list" where
  "declared_order = [Uppercase, Lowercase, Digit, Symbol]"

fun class_chars :: "CharacterClass \<Rightarrow> string" where
  "class_chars Uppercase = upper CHAR_sets"
| "class_chars Lowercase = lower CHAR_sets"
| "class_chars Digit = numbers CHAR_sets"
| "class_chars Symbol = symbols CHAR_sets"

fun enabled :: "options \<Rightarrow> CharacterClass \<Rightarrow> bool" where
  "enabled opts Uppercase = optUpper opts"
| "enabled opts Lowercase = optLower opts"
| "enabled opts Digit = optNumbers opts"
| "enabled opts Symbol = optSymbols opts"

definition pool_spec :: "options \<Rightarrow> string" where
  "pool_spec opts =
     (let joined = concat (map class_chars (filter (enabled opts) declared_order))
      in if optExclude opts
         then filter (\<lambda>c. c \<notin> {CHR ''O'', CHR ''0'', CHR ''I'', CHR ''l''}) joined
         else joined)"

subsection \<open>Successive calls of the random selector\<close>

text \<open>
  The specification's "\<open>n\<close> independent samples via the Random Selector": the results
  of \<open>n\<close> calls of \<open>secureRandomInt\<close> with the same range, one after the other, each
  starting where the one before stopped. \<open>generatePlain\<close> is compared with it below.
\<close>

fun samples :: "window \<Rightarrow> int \<Rightarrow> nat \<Rightarrow> nat \<Rightarrow> (error + int list \<times> nat) option" where
  "samples w r 0 s = Some (Inr ([], s))"
| "samples w r (Suc n) s =
     (case secureRandomInt w r s of
        None \<Rightarrow> None
      | Some (Inl e) \<Rightarrow> Some (Inl e)
      | Some (Inr (idx, s')) \<Rightarrow>
          (case samples w r n s' of
             None \<Rightarrow> None
           | Some (Inl e) \<Rightarrow> Some (Inl e)
           | Some (Inr (idxs, s'')) \<Rightarrow> Some (Inr (idx # idxs, s''))))"

subsection \<open>Concrete inputs\<close>

text \<open>Option states and random sources at which the theorems below are instantiated.\<close>

definition lower_and_numbers :: options where
  "lower_and_numbers =
     \<lparr> optUpper = False, optLower = True, optNumbers = True, optSymbols = False,
       optExclude = False \<rparr>"

definition all_classes :: options where
  "all_classes =
     \<lparr> optUpper = True, optLower = True, optNumbers = True, optSymbols = True,
       optExclude = False \<rparr>"

definition no_classes :: options where
  "no_classes =
     \<lparr> optUpper = False, optLower = False, optNumbers = False, optSymbols = False,
       optExclude = True \<rparr>"

definition constant_draws :: "32 word \<Rightarrow> nat \<Rightarrow> 32 word" where
  "constant_draws v n = v"

text \<open>A source whose first draw is \<open>2^32 - 1\<close> and whose later draws are 7.\<close>

definition one_rejection :: "nat \<Rightarrow> 32 word" where
  "one_rejection n = (if n = 0 then 4294967295 else 7)"

definition constant_random :: "rat \<Rightarrow> nat \<Rightarrow> rat" where
  "constant_random u n = u"

text \<open>Browsers with and without the cryptographic source, with the string limit of V8.\<close>

definition with_crypto :: "(nat \<Rightarrow> 32 word) \<Rightarrow> window" where
  "with_crypto src =
     \<lparr> crypto = Some src, mathRandom = constant_random 0, maxStringLength = 536870888 \<rparr>"

definition without_crypto :: "(nat \<Rightarrow> rat) \<Rightarrow> window" where
  "without_crypto u = \<lparr> crypto = None, mathRandom = u, maxStringLength = 536870888 \<rparr>"

section \<open>Properties\<close>

subsection \<open>The character pool\<close>

lemma distinct_classes:
  "distinct (upper CHAR_sets)" "distinct (lower CHAR_sets)"
  "distinct (numbers CHAR_sets)" "distinct (symbols CHAR_sets)"
  by (simp_all add: CHAR_sets_def)

lemma disjoint_classes:
  "set (upper CHAR_sets) \<inter> set (lower CHAR_sets) = {}"
  "set (upper CHAR_sets) \<inter> set (numbers CHAR_sets) = {}"
  "set (upper CHAR_sets) \<inter> set (symbols CHAR_sets) = {}"
  "set (lower CHAR_sets) \<inter> set (numbers CHAR_sets) = {}"
  "set (lower CHAR_sets) \<inter> set (symbols CHAR_sets) = {}"
  "set (numbers CHAR_sets) \<inter> set (symbols CHAR_sets) = {}"
  by (simp_all add: CHAR_sets_def)

lemma set_AMBIGUOUS: "set AMBIGUOUS = {CHR ''O'', CHR ''0'', CHR ''I'', CHR ''l''}"
  by (simp add: AMBIGUOUS_def)

lemma replace_class_Nil: "replace_class cls [] = []"
  by (simp add: replace_class_def)

lemma replace_class_append:
  "replace_class cls (xs @ ys) = replace_class cls xs @ replace_class cls ys"
  by (simp add: replace_class_def)

text \<open>The filter is the last step of \<open>buildCharPool\<close>.\<close>

lemma buildCharPool_exclude:
  "buildCharPool opts =
     (if optExclude opts
      then replace_class AMBIGUOUS (buildCharPool (opts\<lparr>optExclude := False\<rparr>))
      else buildCharPool (opts\<lparr>optExclude := False\<rparr>))"
  by (simp add: buildCharPool_def Let_def)

lemma distinct_unfiltered: "distinct (buildCharPool (opts\<lparr>optExclude := False\<rparr>))"
  using disjoint_classes by (auto simp add: buildCharPool_def Let_def distinct_classes)

text \<open>Each class keeps a character when the ambiguous ones are removed.\<close>

lemma kept_chars:
  "CHR ''A'' \<in> set (replace_class AMBIGUOUS (upper CHAR_sets))"
  "CHR ''a'' \<in> set (replace_class AMBIGUOUS (lower CHAR_sets))"
  "CHR ''1'' \<in> set (replace_class AMBIGUOUS (numbers CHAR_sets))"
  "CHR ''!'' \<in> set (replace_class AMBIGUOUS (symbols CHAR_sets))"
  by (simp_all add: replace_class_def AMBIGUOUS_def CHAR_sets_def)

lemma buildCharPool_empty_iff:
  "buildCharPool opts = [] \<longleftrightarrow>
     \<not> optUpper opts \<and> \<not> optLower opts \<and> \<not> optNumbers opts \<and> \<not> optSymbols opts"
proof -
  have ne: "replace_class AMBIGUOUS (upper CHAR_sets) \<noteq> []"
    "replace_class AMBIGUOUS (lower CHAR_sets) \<noteq> []"
    "replace_class AMBIGUOUS (numbers CHAR_sets) \<noteq> []"
    "replace_class AMBIGUOUS (symbols CHAR_sets) \<noteq> []"
    using kept_chars by fastforce+
  have ne': "upper CHAR_sets \<noteq> []" "lower CHAR_sets \<noteq> []"
    "numbers CHAR_sets \<noteq> []" "symbols CHAR_sets \<noteq> []"
    by (simp_all add: CHAR_sets_def)
  show ?thesis
    by (auto simp add: buildCharPool_def Let_def replace_class_append replace_class_Nil ne ne')
qed

text \<open>
  Claim C6. For every state of the four class checkboxes, the pool built with the
  exclude-ambiguous flag set is the pool built without it from which exactly the
  characters \<open>O\<close>, \<open>0\<close>, \<open>I\<close> and \<open>l\<close> are deleted (every other character
  stays, in its place, and none is added); so the pool with the flag is never longer than
  the pool without it.
\<close>

theorem exclude_removes_exactly_ambiguous:
  "buildCharPool (opts\<lparr>optExclude := True\<rparr>) =
     filter (\<lambda>c. c \<notin> {CHR ''O'', CHR ''0'', CHR ''I'', CHR ''l''})
       (buildCharPool (opts\<lparr>optExclude := False\<rparr>))
   \<and> length (buildCharPool (opts\<lparr>optExclude := True\<rparr>))
       \<le> length (buildCharPool (opts\<lparr>optExclude := False\<rparr>))"
proof -
  have eq: "buildCharPool (opts\<lparr>optExclude := True\<rparr>) =
      replace_class AMBIGUOUS (buildCharPool (opts\<lparr>optExclude := False\<rparr>))"
    by (subst buildCharPool_exclude) simp
  then show ?thesis
    by (simp add: replace_class_def set_AMBIGUOUS)
qed

text \<open>
  Claim C9. \<open>buildCharPool\<close> is the specification's pool: the concatenation of the
  enabled classes in the declared order uppercase, lowercase, numbers, symbols, with the
  ambiguous filter applied last. It reads nothing but the five checkboxes, so two option
  states that agree on them give the same pool, character for character.
\<close>

theorem buildCharPool_declared_order:
  "buildCharPool opts = pool_spec opts
   \<and> (optUpper opts = optUpper opts' \<and> optLower opts = optLower opts'
        \<and> optNumbers opts = optNumbers opts' \<and> optSymbols opts = optSymbols opts'
        \<and> optExclude opts = optExclude opts'
      \<longrightarrow> buildCharPool opts = buildCharPool opts')"
  by (simp add: buildCharPool_def pool_spec_def declared_order_def Let_def
        replace_class_def set_AMBIGUOUS)

theorem buildCharPool_declared_order_witness:
  "buildCharPool lower_and_numbers = pool_spec lower_and_numbers
   \<and> buildCharPool lower_and_numbers = ''abcdefghijklmnopqrstuvwxyz0123456789''
   \<and> buildCharPool (lower_and_numbers\<lparr>optUpper := False\<rparr>) = buildCharPool lower_and_numbers"
proof -
  have "buildCharPool lower_and_numbers = ''abcdefghijklmnopqrstuvwxyz0123456789''"
    by (simp add: buildCharPool_def lower_and_numbers_def CHAR_sets_def Let_def)
  then show ?thesis
    using buildCharPool_declared_order
      [of lower_and_numbers "lower_and_numbers\<lparr>optUpper := False\<rparr>"]
    by (simp add: lower_and_numbers_def)
qed

text \<open>
  Claim C10. For every option state the pool has no repeated character: the four class
  strings are duplicate-free and pairwise disjoint, and the filter only deletes. So the
  number of distinct characters that \<open>estimateEntropyBits\<close> counts (the size of the
  \<^verbatim>\<open>Set\<close>) is the length of the pool.
\<close>

theorem buildCharPool_distinct:
  "distinct (buildCharPool opts)
   \<and> length (remdups (buildCharPool opts)) = length (buildCharPool opts)
   \<and> card (set (buildCharPool opts)) = length (buildCharPool opts)"
proof -
  have d: "distinct (buildCharPool opts)"
    by (subst buildCharPool_exclude) (simp add: replace_class_def distinct_unfiltered)
  then show ?thesis
    by (simp add: distinct_card)
qed

subsection \<open>The rejection loop\<close>

lemma drawLoop_accept:
  "uint (src s) < lmt \<Longrightarrow> drawLoop src lmt s = Some (uint (src s), Suc s)"
  by (subst drawLoop.simps) simp

lemma drawLoop_reject:
  "lmt \<le> uint (src s) \<Longrightarrow> drawLoop src lmt s = drawLoop src lmt (Suc s)"
  by (subst drawLoop.simps) simp

lemma drawLoop_first_accepted:
  "uint (src (s + k)) < lmt \<Longrightarrow> (\<forall>j<k. lmt \<le> uint (src (s + j))) \<Longrightarrow>
   drawLoop src lmt s = Some (uint (src (s + k)), Suc (s + k))"
proof (induction k arbitrary: s)
  case 0
  then show ?case by (simp add: drawLoop_accept)
next
  case (Suc k)
  from Suc.prems(2) have rej: "lmt \<le> uint (src s)" by force
  have "drawLoop src lmt (Suc s) = Some (uint (src (Suc s + k)), Suc (Suc s + k))"
  proof (rule Suc.IH)
    show "uint (src (Suc s + k)) < lmt" using Suc.prems(1) by simp
    show "\<forall>j<k. lmt \<le> uint (src (Suc s + j))"
    proof (intro allI impI)
      fix j assume "j < k"
      then have "lmt \<le> uint (src (s + Suc j))" using Suc.prems(2) by blast
      then show "lmt \<le> uint (src (Suc s + j))" by simp
    qed
  qed
  then show ?case using rej by (simp add: drawLoop_reject)
qed

lemma drawLoop_Some_D:
  assumes "drawLoop src lmt s = Some y"
  shows "s < snd y \<and> fst y = uint (src (snd y - 1)) \<and> fst y < lmt
         \<and> (\<forall>j. s \<le> j \<and> j < snd y - 1 \<longrightarrow> lmt \<le> uint (src j))"
proof (rule drawLoop.raw_induct[where P = "\<lambda>src lmt s y. s < snd y \<and> fst y = uint (src (snd y - 1)) \<and> fst y < lmt
         \<and> (\<forall>j. s \<le> j \<and> j < snd y - 1 \<longrightarrow> lmt \<le> uint (src j))", OF _ assms], goal_cases)
  case (1 loop src lmt s y)
  show ?case
  proof (cases "lmt \<le> uint (src s)")
    case True
    with 1(2) have "loop src lmt (Suc s) = Some y" by simp
    from 1(1)[OF this]
    have IH: "Suc s < snd y" "fst y = uint (src (snd y - 1))" "fst y < lmt"
      "\<forall>j. Suc s \<le> j \<and> j < snd y - 1 \<longrightarrow> lmt \<le> uint (src j)"
      by simp_all
    have "\<forall>j. s \<le> j \<and> j < snd y - 1 \<longrightarrow> lmt \<le> uint (src j)"
    proof (intro allI impI)
      fix j assume j: "s \<le> j \<and> j < snd y - 1"
      show "lmt \<le> uint (src j)"
      proof (cases "j = s")
        case True then show ?thesis using \<open>lmt \<le> uint (src s)\<close> by simp
      next
        case False
        with j have "Suc s \<le> j \<and> j < snd y - 1" by simp
        with IH(4) show ?thesis by blast
      qed
    qed
    with IH show ?thesis by simp
  next
    case False
    with 1(2) have "y = (uint (src s), Suc s)" by simp
    with False show ?thesis by simp
  qed
qed

lemma drawLoop_None_iff:
  "drawLoop src lmt s = None \<longleftrightarrow> (\<forall>j\<ge>s. lmt \<le> uint (src j))"
proof
  assume N: "drawLoop src lmt s = None"
  show "\<forall>j\<ge>s. lmt \<le> uint (src j)"
  proof (rule ccontr)
    assume "\<not> (\<forall>j\<ge>s. lmt \<le> uint (src j))"
    then have ex: "\<exists>k. uint (src (s + k)) < lmt"
      by (metis le_Suc_ex not_le)
    define k where "k = (LEAST k. uint (src (s + k)) < lmt)"
    have a: "uint (src (s + k)) < lmt"
      unfolding k_def using ex by (rule LeastI_ex)
    have b: "\<forall>j<k. lmt \<le> uint (src (s + j))"
      unfolding k_def using not_less_Least by (metis not_le)
    from drawLoop_first_accepted[OF a b] N show False by simp
  qed
next
  assume A: "\<forall>j\<ge>s. lmt \<le> uint (src j)"
  show "drawLoop src lmt s = None"
  proof (cases "drawLoop src lmt s")
    case None then show ?thesis .
  next
    case (Some y)
    from drawLoop_Some_D[OF Some] have "s < snd y" "uint (src (snd y - 1)) < lmt" by auto
    moreover have "s \<le> snd y - 1" using \<open>s < snd y\<close> by simp
    ultimately show ?thesis using A by (metis not_le)
  qed
qed

subsection \<open>The limit and the accepted draws\<close>

lemma limit_eq: "limit r = (4294967296 div r) * r"
  by (simp add: limit_def bucketSize_def)

lemma limit_bounds:
  assumes "0 < r" "r \<le> 4294967296"
  shows "r \<le> limit r" "limit r \<le> 4294967296" "4294967296 - r < limit r"
proof -
  have "0 < 4294967296 div r"
    using assms by (simp add: pos_imp_zdiv_pos_iff)
  then have "1 \<le> 4294967296 div r" by linarith
  then have "1 * r \<le> (4294967296 div r) * r"
    using assms(1) by (intro mult_right_mono) simp_all
  then show "r \<le> limit r" by (simp add: limit_eq)
  have "(4294967296 div r) * r + 4294967296 mod r = 4294967296"
    by simp
  moreover have "0 \<le> (4294967296::int) mod r" "(4294967296::int) mod r < r"
    using assms(1) by simp_all
  ultimately show "limit r \<le> 4294967296" "4294967296 - r < limit r"
    unfolding limit_eq by linarith+
qed

lemma limit_more_than_half:
  assumes "0 < r" "r \<le> 4294967296"
  shows "2147483648 < limit r"
  using limit_bounds[OF assms] by (cases "r \<le> 2147483648") linarith+

lemma limit_zero: "4294967296 < r \<Longrightarrow> limit r = 0"
  by (simp add: limit_eq)

lemma mod_preimages_card:
  fixes b r v :: int
  assumes "0 \<le> b" "0 < r" "0 \<le> v" "v < r" "b * r \<le> 4294967296"
  shows "card {x :: 32 word. uint x < b * r \<and> uint x mod r = v} = nat b"
proof -
  let ?f = "\<lambda>k::int. (word_of_int (k * r + v) :: 32 word)"
  have in_range: "0 \<le> k * r + v \<and> k * r + v < b * r" if "k \<in> {0..<b}" for k
  proof -
    from that have k: "0 \<le> k" "k + 1 \<le> b" by simp_all
    have "0 \<le> k * r" using k(1) assms(2) by simp
    moreover have "(k + 1) * r \<le> b * r"
      using k(2) assms(2) by (intro mult_right_mono) simp_all
    then have "k * r + r \<le> b * r" by (simp add: algebra_simps)
    ultimately show ?thesis using assms(3,4) by linarith
  qed
  have uint_small: "uint (word_of_int n :: 32 word) = n" if "0 \<le> n" "n < 4294967296" for n
    using that by (simp add: uint_word_of_int take_bit_int_eq_self)
  have uint_f: "uint (?f k) = k * r + v" if "k \<in> {0..<b}" for k
  proof -
    from in_range[OF that] assms(5) have "0 \<le> k * r + v" "k * r + v < 4294967296" by simp_all
    then show ?thesis by (rule uint_small)
  qed
  have inj: "inj_on ?f {0..<b}"
  proof (rule inj_onI)
    fix k k' assume kk: "k \<in> {0..<b}" "k' \<in> {0..<b}" and eq: "?f k = ?f k'"
    from eq have "uint (?f k) = uint (?f k')" by simp
    then have "k * r + v = k' * r + v" using uint_f kk by simp
    then show "k = k'" using assms(2) by simp
  qed
  have "{x :: 32 word. uint x < b * r \<and> uint x mod r = v} = ?f ` {0..<b}"
  proof (intro set_eqI iffI)
    fix x :: "32 word"
    assume "x \<in> {x. uint x < b * r \<and> uint x mod r = v}"
    then have x: "uint x < b * r" "uint x mod r = v" by simp_all
    let ?k = "uint x div r"
    have nonneg: "0 \<le> ?k" using assms(2) by (simp add: pos_imp_zdiv_nonneg_iff)
    have decomp: "?k * r + v = uint x"
      using x(2) by (metis div_mult_mod_eq)
    have less: "?k < b"
    proof (rule ccontr)
      assume "\<not> ?k < b"
      then have "b * r \<le> ?k * r"
        using assms(2) by (intro mult_right_mono) simp_all
      with decomp x(1) assms(3) show False by linarith
    qed
    from decomp have fk: "x = ?f ?k" by simp
    from nonneg less have kin: "?k \<in> {0..<b}" by simp
    from fk kin show "x \<in> ?f ` {0..<b}" by (rule image_eqI)
  next
    fix x :: "32 word"
    assume "x \<in> ?f ` {0..<b}"
    then obtain k where k: "k \<in> {0..<b}" "x = ?f k" by blast
    have "uint x = k * r + v" using uint_f k by simp
    moreover have "(k * r + v) mod r = v" using assms(3,4) by simp
    ultimately show "x \<in> {x. uint x < b * r \<and> uint x mod r = v}"
      using in_range[OF k(1)] by simp
  qed
  then have "card {x :: 32 word. uint x < b * r \<and> uint x mod r = v} = card (?f ` {0..<b})"
    by simp
  also have "\<dots> = card {0..<b}" using inj by (rule card_image)
  also have "\<dots> = nat b" by simp
  finally show ?thesis .
qed

subsection \<open>Rounding to a double\<close>

lemma round_half_even_upper: "of_int (round_half_even y) \<le> y + 1/2"
proof -
  define f where "f = \<lfloor>y\<rfloor>"
  have a: "of_int f \<le> y" unfolding f_def by (rule of_int_floor_le)
  consider "y - of_int f < 1/2" | "1/2 < y - of_int f" | "y - of_int f = 1/2"
    by linarith
  then show ?thesis
  proof cases
    case 1
    then have "round_half_even y = f" by (simp add: round_half_even_def f_def Let_def)
    with a show ?thesis by simp
  next
    case 2
    then have "round_half_even y = f + 1" by (simp add: round_half_even_def f_def Let_def)
    with 2 show ?thesis by simp
  next
    case 3
    then have "round_half_even y = f \<or> round_half_even y = f + 1"
      by (simp add: round_half_even_def f_def Let_def)
    with 3 show ?thesis by auto
  qed
qed

lemma round_half_even_nonneg: "0 \<le> y \<Longrightarrow> 0 \<le> round_half_even y"
  by (auto simp add: round_half_even_def Let_def)

lemma round_half_even_of_int: "round_half_even (of_int m) = m"
  by (simp add: round_half_even_def Let_def)

lemma find_exp_ge: "- 1022 \<le> find_exp k a"
  by (induction k) auto

lemma find_exp_lower: "find_exp k a = - 1022 \<or> 2 powi (find_exp k a) \<le> a"
  by (induction k) auto

lemma find_exp_subnormal:
  "find_exp k a = - 1022 \<Longrightarrow> 0 < k \<Longrightarrow> a < 2 powi (- 1021)"
proof (induction k)
  case 0
  then show ?case by simp
next
  case (Suc k)
  show ?case
  proof (cases "k = 0")
    case True
    with Suc.prems show ?thesis by (auto split: if_splits)
  next
    case False
    with Suc show ?thesis by (auto split: if_splits)
  qed
qed

lemma find_exp_unique:
  "2 powi e \<le> a \<Longrightarrow> a < 2 powi (e + 1) \<Longrightarrow> - 1022 \<le> e \<Longrightarrow> e + 1022 \<le> int k \<Longrightarrow>
   find_exp k a = e"
proof (induction k)
  case 0
  then show ?case by simp
next
  case (Suc k)
  show ?case
  proof (cases "e + 1022 = int (Suc k)")
    case True
    then have "int (Suc k) - 1022 = e" by simp
    with Suc.prems(1) show ?thesis by simp
  next
    case False
    with Suc.prems(4) have le: "e + 1022 \<le> int k" by simp
    then have "e + 1 \<le> int (Suc k) - 1022" by simp
    then have "(2::rat) powi (e + 1) \<le> 2 powi (int (Suc k) - 1022)"
      by (intro power_int_increasing) simp_all
    with Suc.prems(2) have "\<not> 2 powi (int (Suc k) - 1022) \<le> a" by simp
    then have "find_exp (Suc k) a = find_exp k a" by simp
    with Suc.IH[OF Suc.prems(1,2,3) le] show ?thesis by simp
  qed
qed

lemma double_exponent_eq:
  assumes "2 powi e \<le> a" "a < 2 powi (e + 1)" "- 1022 \<le> e" "e \<le> 1023"
  shows "double_exponent a = e"
  unfolding double_exponent_def using assms by (intro find_exp_unique) simp_all

lemma to_double_at:
  assumes "x \<noteq> 0" "2 powi e \<le> \<bar>x\<bar>" "\<bar>x\<bar> < 2 powi (e + 1)" "- 1022 \<le> e" "e \<le> 1023"
  shows "to_double x = of_int (round_half_even (x / 2 powi (e - 52))) * 2 powi (e - 52)"
  using assms(1) by (simp add: to_double_def Let_def double_exponent_eq[OF assms(2-5)])

lemma to_double_exact:
  assumes "x \<noteq> 0" "2 powi e \<le> \<bar>x\<bar>" "\<bar>x\<bar> < 2 powi (e + 1)" "- 1022 \<le> e" "e \<le> 1023"
    and "x / 2 powi (e - 52) = of_int m"
  shows "to_double x = x"
proof -
  have "to_double x = of_int m * 2 powi (e - 52)"
    unfolding to_double_at[OF assms(1-5)] assms(6) by (simp add: round_half_even_of_int)
  also have "\<dots> = x / 2 powi (e - 52) * 2 powi (e - 52)"
    by (simp only: assms(6))
  also have "\<dots> = x" by simp
  finally show ?thesis .
qed

lemma to_double_nonneg: "0 \<le> x \<Longrightarrow> 0 \<le> to_double x"
  by (auto simp add: to_double_def Let_def intro!: mult_nonneg_nonneg round_half_even_nonneg)

lemma to_double_upper:
  assumes "0 < x"
  shows "to_double x \<le> x + 2 powi (double_exponent x - 52) / 2"
proof -
  define ulp :: rat where "ulp = 2 powi (double_exponent x - 52)"
  have pos: "0 < ulp" by (simp add: ulp_def)
  have "of_int (round_half_even (x / ulp)) \<le> x / ulp + 1/2"
    by (rule round_half_even_upper)
  then have "of_int (round_half_even (x / ulp)) * ulp \<le> (x / ulp + 1/2) * ulp"
    using pos by (intro mult_right_mono) simp_all
  also have "\<dots> = x + ulp / 2" using pos by (simp add: field_simps)
  finally show ?thesis
    using assms by (simp add: to_double_def ulp_def Let_def)
qed

lemma to_double_below:
  assumes "0 \<le> u" "u \<le> 1 - 1 / 2 ^ 53" "1 \<le> r"
  shows "to_double (u * of_int r) < of_int r"
proof (cases "u * of_int r = 0")
  case True
  with assms(3) show ?thesis by (simp add: to_double_def)
next
  case False
  define x where "x = u * rat_of_int r"
  define c :: rat where "c = 1 / 2 ^ 53"
  have c: "0 < c" "c < 1" by (simp_all add: c_def)
  have rpos: "0 < rat_of_int r" using assms(3) by simp
  have xpos: "0 < x" using False assms(1) rpos by (simp add: x_def less_le)
  have xle: "x \<le> of_int r * (1 - c)"
    unfolding x_def using assms(2) rpos by (simp add: c_def mult.commute mult_left_mono)
  define e where "e = double_exponent x"
  have up: "to_double x \<le> x + 2 powi (e - 52) / 2"
    unfolding e_def using xpos by (rule to_double_upper)
  have "e = - 1022 \<or> 2 powi e \<le> x"
    unfolding e_def double_exponent_def by (rule find_exp_lower)
  then have "to_double x < of_int r"
  proof
    assume sub: "e = - 1022"
    have k: "(0::nat) < 2045" by simp
    have fe: "find_exp 2045 x = - 1022"
      using sub by (simp only: e_def double_exponent_def)
    have "x < 2 powi (- 1021)"
      using fe k by (rule find_exp_subnormal)
    also have "(2::rat) powi (- 1021) \<le> 2 powi (- 2)"
      by (intro power_int_increasing) simp_all
    finally have "x < 1 / 4" by simp
    moreover have "(2::rat) powi (e - 52) \<le> 2 powi (- 2)"
      unfolding sub by (intro power_int_increasing) simp_all
    then have "(2::rat) powi (e - 52) / 2 \<le> 1 / 8" by simp
    ultimately have "to_double x < 1" using up by linarith
    with rpos assms(3) show ?thesis by linarith
  next
    assume norm: "2 powi e \<le> x"
    have "(2::rat) powi (e - 52) = 2 powi e / 2 ^ 52"
      by (simp add: power_int_diff)
    then have "(2::rat) powi (e - 52) / 2 = 2 powi e * c"
      by (simp add: c_def)
    also have "\<dots> \<le> x * c"
      using norm c(1) by (intro mult_right_mono) simp_all
    finally have "to_double x \<le> x * (1 + c)"
      using up by (simp add: algebra_simps)
    also have "\<dots> \<le> (of_int r * (1 - c)) * (1 + c)"
      using xle c(1) by (intro mult_right_mono) simp_all
    also have "\<dots> = of_int r - of_int r * (c * c)"
      by (simp add: algebra_simps)
    also have "\<dots> < of_int r"
      using rpos c(1) by simp
    finally show ?thesis .
  qed
  then show ?thesis by (simp add: x_def)
qed

lemma floor_to_double_index:
  assumes "0 \<le> u" "u \<le> 1 - 1 / 2 ^ 53" "1 \<le> r"
  shows "0 \<le> \<lfloor>to_double (u * of_int r)\<rfloor>" "\<lfloor>to_double (u * of_int r)\<rfloor> < r"
proof -
  have "0 \<le> u * rat_of_int r" using assms(1,3) by simp
  then have "0 \<le> to_double (u * of_int r)" by (rule to_double_nonneg)
  then show "0 \<le> \<lfloor>to_double (u * of_int r)\<rfloor>" by simp
  from to_double_below[OF assms] show "\<lfloor>to_double (u * of_int r)\<rfloor> < r"
    by (simp add: floor_less_iff)
qed

lemma to_double_0: "to_double 0 = 0"
  by (simp add: to_double_def)

lemma to_double_minus_5_2: "to_double (- (5/2)) = - (5/2)"
  by (rule to_double_exact[where e = 1 and m = "- 5629499534213120"]) simp_all

lemma to_double_18: "to_double 18 = 18"
  by (rule to_double_exact[where e = 4 and m = "5066549580791808"]) simp_all

lemma to_double_tie:
  "to_double (3152519739159347 / 4503599627370496 * 10) = 7"
proof -
  let ?x = "3152519739159347 / 4503599627370496 * 10 :: rat"
  have q: "?x / 2 powi (2 - 52) = 15762598695796735 / 2" by simp
  have f: "\<lfloor>15762598695796735 / 2 :: rat\<rfloor> = 7881299347898367"
    by (simp add: floor_eq_iff)
  have r: "round_half_even (15762598695796735 / 2) = 7881299347898368"
    by (simp add: round_half_even_def f Let_def)
  have "to_double ?x = of_int (round_half_even (?x / 2 powi (2 - 52))) * 2 powi (2 - 52)"
    by (rule to_double_at) simp_all
  then show ?thesis unfolding q r by simp
qed

subsection \<open>The random selector\<close>

lemma secureRandomInt_crypto:
  assumes "crypto w = Some src" "0 < r"
  shows "secureRandomInt w r s =
           (case drawLoop src (limit r) s of None \<Rightarrow> None
            | Some (rand, s') \<Rightarrow> Some (Inr (rand mod r, s')))"
  using assms by (simp add: secureRandomInt_def)

lemma secureRandomInt_None_iff:
  assumes "crypto w = Some src" "0 < r"
  shows "secureRandomInt w r s = None \<longleftrightarrow> (\<forall>j\<ge>s. limit r \<le> uint (src j))"
  unfolding secureRandomInt_crypto[OF assms] drawLoop_None_iff[symmetric]
  by (simp split: option.splits)

lemma secureRandomInt_Some_D:
  assumes "crypto w = Some src" "0 < r" "secureRandomInt w r s = Some x"
  shows "\<exists>v s'. x = Inr (v, s') \<and> 0 \<le> v \<and> v < r \<and> s < s'
            \<and> v = uint (src (s' - 1)) mod r \<and> uint (src (s' - 1)) < limit r
            \<and> (\<forall>j. s \<le> j \<and> j < s' - 1 \<longrightarrow> limit r \<le> uint (src j))"
proof -
  from assms(3) obtain rand s' where d: "drawLoop src (limit r) s = Some (rand, s')"
    and x: "x = Inr (rand mod r, s')"
    unfolding secureRandomInt_crypto[OF assms(1,2)] by (auto split: option.splits)
  from drawLoop_Some_D[OF d]
  have "s < s'" "rand = uint (src (s' - 1))" "rand < limit r"
    "\<forall>j. s \<le> j \<and> j < s' - 1 \<longrightarrow> limit r \<le> uint (src j)" by simp_all
  moreover have "0 \<le> rand mod r" "rand mod r < r" using assms(2) by simp_all
  ultimately show ?thesis using x by blast
qed

text \<open>
  Claim C1, for ranges up to \<open>2^32\<close>. With the cryptographic source available and
  \<open>0 < range \<le> 2^32\<close>: the limit is \<open>floor(2^32 / range) * range\<close>, and more than
  half of the 32-bit values lie below it; \<open>secureRandomInt\<close> returns exactly when the
  source delivers a draw below the limit at or after the current position; what it
  returns is the first such draw modulo \<open>range\<close>, an integer in \<open>[0, range)\<close>, every
  earlier draw having been rejected; and every value in \<open>[0, range)\<close> has the same
  number \<open>floor(2^32 / range)\<close> of accepted 32-bit preimages, so a uniform source gives
  a uniform result.
\<close>

theorem secureRandomInt_unbiased:
  assumes "crypto w = Some src" and "0 < r" and "r \<le> 4294967296"
  shows "limit r = (4294967296 div r) * r
    \<and> 2147483648 < limit r \<and> limit r \<le> 4294967296
    \<and> (secureRandomInt w r s \<noteq> None \<longleftrightarrow> (\<exists>j\<ge>s. uint (src j) < limit r))
    \<and> (\<forall>x. secureRandomInt w r s = Some x \<longrightarrow>
          (\<exists>v s'. x = Inr (v, s') \<and> 0 \<le> v \<and> v < r \<and> s < s'
             \<and> v = uint (src (s' - 1)) mod r \<and> uint (src (s' - 1)) < limit r
             \<and> (\<forall>j. s \<le> j \<and> j < s' - 1 \<longrightarrow> limit r \<le> uint (src j))))
    \<and> (\<forall>v. 0 \<le> v \<and> v < r \<longrightarrow>
          card {x :: 32 word. uint x < limit r \<and> uint x mod r = v} = nat (4294967296 div r))"
proof (intro conjI allI impI)
  show "limit r = (4294967296 div r) * r" by (rule limit_eq)
  show "2147483648 < limit r" using assms(2,3) by (rule limit_more_than_half)
  show "limit r \<le> 4294967296" using assms(2,3) by (rule limit_bounds)
  show "secureRandomInt w r s \<noteq> None \<longleftrightarrow> (\<exists>j\<ge>s. uint (src j) < limit r)"
    unfolding secureRandomInt_None_iff[OF assms(1,2)] by (auto simp: not_le)
next
  fix x assume "secureRandomInt w r s = Some x"
  with assms(1,2) show "\<exists>v s'. x = Inr (v, s') \<and> 0 \<le> v \<and> v < r \<and> s < s'
             \<and> v = uint (src (s' - 1)) mod r \<and> uint (src (s' - 1)) < limit r
             \<and> (\<forall>j. s \<le> j \<and> j < s' - 1 \<longrightarrow> limit r \<le> uint (src j))"
    by (rule secureRandomInt_Some_D)
next
  fix v assume v: "0 \<le> v \<and> v < r"
  have "0 \<le> 4294967296 div r" using assms(2) by (simp add: pos_imp_zdiv_nonneg_iff)
  moreover have "(4294967296 div r) * r \<le> 4294967296"
    using limit_bounds(2)[OF assms(2,3)] by (simp add: limit_eq)
  ultimately have "card {x :: 32 word. uint x < (4294967296 div r) * r \<and> uint x mod r = v}
      = nat (4294967296 div r)"
    using assms(2) v by (intro mod_preimages_card) simp_all
  then show "card {x :: 32 word. uint x < limit r \<and> uint x mod r = v} = nat (4294967296 div r)"
    by (simp add: limit_eq)
qed

text \<open>
  Beyond \<open>2^32\<close> the bucket size and the limit are 0, every draw is rejected and the
  loop runs forever, whatever the source delivers.
\<close>

lemma secureRandomInt_large_range:
  assumes "crypto w = Some src" "4294967296 < r"
  shows "secureRandomInt w r s = None"
proof -
  have "0 < r" using assms(2) by simp
  from secureRandomInt_None_iff[OF assms(1) this] show ?thesis
    by (simp add: limit_zero[OF assms(2)])
qed

text \<open>
  Claim C1 as stated, for every \<open>range > 0\<close>, fails at \<open>range = 2^32 + 1\<close>: the
  call does not return.
\<close>

theorem secureRandomInt_range_above_2_32_never_returns:
  "secureRandomInt (with_crypto (constant_draws 0)) 4294967297 0 = None"
  by (rule secureRandomInt_large_range[where src = "constant_draws 0"])
     (simp_all add: with_crypto_def)

theorem secureRandomInt_unbiased_witness:
  "(0::int) < 10 \<and> (10::int) \<le> 4294967296
   \<and> secureRandomInt (with_crypto (constant_draws 4294967289)) 10 0 = Some (Inr (9, 1))
   \<and> secureRandomInt (with_crypto one_rejection) 10 0 = Some (Inr (7, 2))
   \<and> limit 10 = 4294967290
   \<and> card {x :: 32 word. uint x < limit 10 \<and> uint x mod 10 = 7} = 429496729"
proof -
  let ?src = "constant_draws 4294967289"
  have c: "crypto (with_crypto ?src) = Some ?src" by (simp add: with_crypto_def)
  have l: "limit 10 = 4294967290" by (simp add: limit_def bucketSize_def)
  have d: "drawLoop ?src 4294967290 0 = Some (4294967289, 1)"
    by (subst drawLoop.simps) (simp add: constant_draws_def)
  have p1: "(0::int) < 10" and p2: "(10::int) \<le> 4294967296" by simp_all
  have e: "secureRandomInt (with_crypto ?src) 10 0 = Some (Inr (9, 1))"
    by (simp add: secureRandomInt_def c l d)
  have "\<forall>v. 0 \<le> v \<and> v < 10 \<longrightarrow>
          card {x :: 32 word. uint x < limit 10 \<and> uint x mod 10 = v} = nat (4294967296 div 10)"
    using secureRandomInt_unbiased[OF c p1 p2, of 0] by blast
  then have "card {x :: 32 word. uint x < limit 10 \<and> uint x mod 10 = 7} = nat (4294967296 div 10)"
    by simp
  moreover have "secureRandomInt (with_crypto one_rejection) 10 0 = Some (Inr (7, 2))"
  proof -
    have "drawLoop one_rejection 4294967290 0
        = Some (uint (one_rejection (0 + 1)), Suc (0 + 1))"
      by (rule drawLoop_first_accepted) (simp_all add: one_rejection_def)
    then show ?thesis
      by (simp add: secureRandomInt_def with_crypto_def l one_rejection_def)
  qed
  ultimately show ?thesis using e l by simp
qed

text \<open>
  Claim C3 says that \<open>range \<le> 0\<close> fails with \<open>InvalidRange\<close> whether or not the
  cryptographic source is available. The code tests for the source first and returns
  \<^verbatim>\<open>Math.floor(Math.random() * range)\<close> before it reaches the range check: without
  the source, \<open>range = 0\<close> returns 0 and \<open>range = -5\<close> with \<^verbatim>\<open>Math.random() = 0.5\<close>
  returns \<open>-3\<close> (both products are doubles, so nothing is rounded).
\<close>

theorem secureRandomInt_fallback_skips_range_check:
  "secureRandomInt (without_crypto (constant_random (1/2))) 0 0 = Some (Inr (0, 1))
   \<and> secureRandomInt (without_crypto (constant_random (1/2))) (- 5) 0 = Some (Inr (- 3, 1))"
proof -
  have "to_double (1 / 2 * rat_of_int 0) = 0"
    by (simp add: to_double_0)
  moreover have "to_double (1 / 2 * rat_of_int (- 5)) = - (5 / 2)"
    using to_double_minus_5_2 by simp
  ultimately show ?thesis
    by (simp add: secureRandomInt_def without_crypto_def constant_random_def floor_eq_iff)
qed

text \<open>With the source available the check is reached and the call fails.\<close>

lemma secureRandomInt_crypto_InvalidRange:
  "crypto w = Some src \<Longrightarrow> r \<le> 0 \<Longrightarrow> secureRandomInt w r s = Some (Inl InvalidRange)"
  by (simp add: secureRandomInt_def)

text \<open>
  The product of the fallback is rounded as the double multiplication rounds it. For
  \<^verbatim>\<open>Math.random() = 0.7\<close>, the double \<open>3152519739159347 / 2^52\<close>, and range 10 the
  exact product lies below 7, halfway between two doubles, and the double product is 7:
  the fallback returns 7.
\<close>

lemma secureRandomInt_fallback_rounds:
  "secureRandomInt (without_crypto (constant_random (3152519739159347 / 4503599627370496))) 10 0
     = Some (Inr (7, 1))"
proof -
  have "to_double (3152519739159347 / 4503599627370496 * rat_of_int 10) = 7"
    using to_double_tie by simp
  then show ?thesis
    by (simp add: secureRandomInt_def without_crypto_def constant_random_def)
qed

subsection \<open>The password builder\<close>

lemma take_Suc_update:
  "i < length out \<Longrightarrow> take (Suc i) (out[i := c]) = take i out @ [c]"
  by (simp add: take_Suc_conv_app_nth)

text \<open>
  The loop writes \<^verbatim>\<open>pool.charAt\<close> of one sample after the other into the
  positions \<open>i\<close>, \<open>i + 1\<close>, ... of the array.
\<close>

lemma fillLoop_samples:
  "i \<le> len \<Longrightarrow> length out = len \<Longrightarrow>
   fillLoop w pool len i out s =
     (case samples w (int (length pool)) (len - i) s of
        None \<Rightarrow> None
      | Some (Inl e) \<Rightarrow> Some (Inl e)
      | Some (Inr (idxs, s')) \<Rightarrow> Some (Inr (take i out @ map (charAt pool) idxs, s')))"
proof (induction w pool len i out s rule: fillLoop.induct)
  case (1 w pool len i out s)
  show ?case
  proof (cases "i < len")
    case False
    with 1(2,3) show ?thesis by (subst fillLoop.simps) simp
  next
    case True
    then obtain n where n: "len - i = Suc n" "len - Suc i = n"
      by (metis Suc_diff_Suc)
    show ?thesis
    proof (cases "secureRandomInt w (int (length pool)) s")
      case None
      with True n show ?thesis by (subst fillLoop.simps) simp
    next
      case (Some x)
      show ?thesis
      proof (cases x)
        case (Inl e)
        with Some True n show ?thesis by (subst fillLoop.simps) simp
      next
        case (Inr p)
        obtain idx s1 where p: "p = (idx, s1)" by (cases p)
        have IH: "fillLoop w pool len (Suc i) (out[i := charAt pool idx]) s1 =
          (case samples w (int (length pool)) (len - Suc i) s1 of
             None \<Rightarrow> None
           | Some (Inl e) \<Rightarrow> Some (Inl e)
           | Some (Inr (idxs, s')) \<Rightarrow>
               Some (Inr (take (Suc i) (out[i := charAt pool idx]) @ map (charAt pool) idxs, s')))"
          using True 1(3) Some Inr p by (intro 1(1)) simp_all
        have upd: "take (Suc i) (out[i := charAt pool idx]) = take i out @ [charAt pool idx]"
          using True 1(3) by (simp add: take_Suc_update)
        have "fillLoop w pool len i out s = fillLoop w pool len (Suc i) (out[i := charAt pool idx]) s1"
          using True Some Inr p by (subst fillLoop.simps) simp
        then show ?thesis
          using Some Inr p n
          by (simp add: IH upd split: option.splits sum.splits)
      qed
    qed
  qed
qed

lemma generatePlain_samples:
  assumes "buildCharPool opts \<noteq> []" "0 \<le> n" "n < 4294967296"
  shows "generatePlain w opts (Num n) s =
     (case samples w (int (length (buildCharPool opts))) (nat n) s of
        None \<Rightarrow> None
      | Some (Inl e) \<Rightarrow> Some (Inl e)
      | Some (Inr (idxs, s')) \<Rightarrow>
          (case join w (map (charAt (buildCharPool opts)) idxs) of
             Inl e \<Rightarrow> Some (Inl e)
           | Inr pw \<Rightarrow> Some (Inr (pw, s'))))"
proof -
  have na: "newArray (Num n) = Inr (replicate (nat n) [])"
    using assms(2,3) by (simp add: newArray_def)
  have "fillLoop w (buildCharPool opts) (nat n) 0 (replicate (nat n) []) s =
      (case samples w (int (length (buildCharPool opts))) (nat n - 0) s of
        None \<Rightarrow> None
      | Some (Inl e) \<Rightarrow> Some (Inl e)
      | Some (Inr (idxs, s')) \<Rightarrow>
          Some (Inr (take 0 (replicate (nat n) []) @ map (charAt (buildCharPool opts)) idxs, s')))"
    by (rule fillLoop_samples) simp_all
  then show ?thesis
    using assms(1) by (simp add: generatePlain_def na Let_def split: option.splits sum.splits)
qed

text \<open>The indices in range give one character each, so the joined string has their number.\<close>

lemma concat_charAt:
  "\<forall>i\<in>set idxs. 0 \<le> i \<and> i < int (length pool) \<Longrightarrow>
   concat (map (charAt pool) idxs) = map (\<lambda>i. pool ! nat i) idxs"
  by (induction idxs) (simp_all add: charAt_def)

lemma join_charAt:
  assumes "\<forall>i\<in>set idxs. 0 \<le> i \<and> i < int (length pool)"
    and "length idxs \<le> maxStringLength w"
  shows "join w (map (charAt pool) idxs) = Inr (map (\<lambda>i. pool ! nat i) idxs)"
  using assms(2) by (simp add: join_def concat_charAt[OF assms(1)])

lemma secureRandomInt_error:
  "secureRandomInt w r s = Some (Inl e) \<Longrightarrow> e = InvalidRange \<and> r \<le> 0"
  by (auto simp add: secureRandomInt_def split: option.splits if_splits)

lemma samples_error:
  "samples w r n s = Some (Inl e) \<Longrightarrow> e = InvalidRange \<and> r \<le> 0"
proof (induction n arbitrary: s)
  case 0
  then show ?case by simp
next
  case (Suc n)
  then show ?case
    by (auto split: option.splits sum.splits dest: secureRandomInt_error)
qed

text \<open>
  The only exceptions of \<open>generatePlain\<close>: the empty pool and, for a non-empty pool,
  the \<^verbatim>\<open>RangeError\<close> of \<^verbatim>\<open>new Array\<close> and that of \<^verbatim>\<open>join\<close>.
\<close>

lemma generatePlain_error:
  assumes "generatePlain w opts len s = Some (Inl e)"
  shows "(e = EmptyPool \<and> buildCharPool opts = [])
       \<or> (e = InvalidArrayLength \<and> buildCharPool opts \<noteq> []
            \<and> (case len of NaN \<Rightarrow> True | Num n \<Rightarrow> n < 0 \<or> 4294967296 \<le> n))
       \<or> (e = InvalidStringLength \<and> buildCharPool opts \<noteq> [])"
proof (cases "buildCharPool opts = []")
  case True
  with assms show ?thesis by (simp add: generatePlain_def)
next
  case ne: False
  show ?thesis
  proof (cases "case len of NaN \<Rightarrow> True | Num n \<Rightarrow> n < 0 \<or> 4294967296 \<le> n")
    case True
    then have "newArray len = Inl InvalidArrayLength"
      by (auto simp add: newArray_def split: number.splits)
    with assms ne True show ?thesis by (simp add: generatePlain_def)
  next
    case False
    then obtain n where n: "len = Num n" "0 \<le> n" "n < 4294967296"
      by (cases len) auto
    from assms have "samples w (int (length (buildCharPool opts))) (nat n) s = Some (Inl e)
        \<or> e = InvalidStringLength"
      unfolding n(1) generatePlain_samples[OF ne n(2,3)]
      by (auto simp add: join_def split: option.splits sum.splits if_splits)
    then show ?thesis
    proof
      assume "samples w (int (length (buildCharPool opts))) (nat n) s = Some (Inl e)"
      from samples_error[OF this] ne show ?thesis by simp
    next
      assume "e = InvalidStringLength"
      with ne show ?thesis by simp
    qed
  qed
qed

text \<open>
  One call returns an index in range: with the cryptographic source when a draw below the
  limit comes, without it when \<^verbatim>\<open>Math.random()\<close> is at most \<open>1 - 2^-53\<close>, the
  largest double below 1 (the rounded product then stays below the range).
\<close>

lemma secureRandomInt_returns:
  assumes "0 < r"
    and "\<And>src. crypto w = Some src \<Longrightarrow> \<exists>j\<ge>s. uint (src j) < limit r"
    and "crypto w = None \<Longrightarrow> 0 \<le> mathRandom w s \<and> mathRandom w s \<le> 1 - 1 / 2 ^ 53"
  shows "\<exists>v s'. secureRandomInt w r s = Some (Inr (v, s')) \<and> 0 \<le> v \<and> v < r \<and> s < s'"
proof (cases "crypto w")
  case None
  from assms(3)[OF None] have u: "0 \<le> mathRandom w s" "mathRandom w s \<le> 1 - 1 / 2 ^ 53"
    by simp_all
  have r1: "1 \<le> r" using assms(1) by simp
  from floor_to_double_index[OF u r1]
  have "0 \<le> \<lfloor>to_double (mathRandom w s * of_int r)\<rfloor>"
    "\<lfloor>to_double (mathRandom w s * of_int r)\<rfloor> < r" .
  then show ?thesis using None by (simp add: secureRandomInt_def)
next
  case (Some src)
  from assms(2)[OF Some] have "secureRandomInt w r s \<noteq> None"
    unfolding secureRandomInt_None_iff[OF Some assms(1)] by (auto simp: not_le)
  then obtain x where x: "secureRandomInt w r s = Some x" by blast
  from secureRandomInt_Some_D[OF Some assms(1) x] x show ?thesis by blast
qed

lemma samples_return:
  assumes "0 < r"
    and "\<And>src. crypto w = Some src \<Longrightarrow> \<forall>s. \<exists>j\<ge>s. uint (src j) < limit r"
    and "crypto w = None \<Longrightarrow> \<forall>k. 0 \<le> mathRandom w k \<and> mathRandom w k \<le> 1 - 1 / 2 ^ 53"
  shows "\<exists>idxs s'. samples w r n s = Some (Inr (idxs, s')) \<and> length idxs = n
           \<and> (\<forall>i\<in>set idxs. 0 \<le> i \<and> i < r) \<and> s + n \<le> s'"
proof (induction n arbitrary: s)
  case 0
  show ?case by simp
next
  case (Suc n)
  obtain v s1 where one: "secureRandomInt w r s = Some (Inr (v, s1))" "0 \<le> v" "v < r" "s < s1"
    using secureRandomInt_returns[of r w s] assms by blast
  from Suc.IH[of s1] obtain idxs s' where
    rest: "samples w r n s1 = Some (Inr (idxs, s'))" "length idxs = n"
      "\<forall>i\<in>set idxs. 0 \<le> i \<and> i < r" "s1 + n \<le> s'"
    by blast
  have "samples w r (Suc n) s = Some (Inr (v # idxs, s'))"
    using one(1) rest(1) by simp
  moreover have "length (v # idxs) = Suc n" using rest(2) by simp
  moreover have "\<forall>i\<in>set (v # idxs). 0 \<le> i \<and> i < r" using one(2,3) rest(3) by simp
  moreover have "s + Suc n \<le> s'" using one(4) rest(4) by simp
  ultimately show ?case by blast
qed

text \<open>
  Claim C7, for the lengths the engine can build. Let the pool be non-empty, let
  \<open>0 \<le> length < 2^32\<close> and let \<open>length\<close> be at most the engine's limit on the
  length of a string, and let the random source keep delivering: with the cryptographic
  source, a draw below the limit after every position; without it, values of
  \<^verbatim>\<open>Math.random()\<close> in \<open>[0, 1)\<close>, which as doubles are at most \<open>1 - 2^-53\<close>.
  Then \<open>generatePlain\<close> returns a string of exactly \<open>length\<close> characters, whose
  \<open>k\<close>-th character is \<^verbatim>\<open>pool.charAt\<close> of the \<open>k\<close>-th of \<open>length\<close> successive
  results of \<open>secureRandomInt(pool.length)\<close>, each an index in \<open>[0, pool.length)\<close>;
  every character is a member of the pool. Nothing constrains the indices among
  themselves: the witness below generates \<open>AAAAAA\<close>.
\<close>

theorem generatePlain_draws_from_pool:
  assumes "buildCharPool opts = pool" and "pool \<noteq> []"
    and "0 \<le> n" and "n < 4294967296" and "nat n \<le> maxStringLength w"
    and "\<forall>src. crypto w = Some src \<longrightarrow> (\<forall>s. \<exists>j\<ge>s. uint (src j) < limit (int (length pool)))"
    and "crypto w = None \<longrightarrow> (\<forall>k. 0 \<le> mathRandom w k \<and> mathRandom w k \<le> 1 - 1 / 2 ^ 53)"
  shows "\<exists>idxs pw s'.
           samples w (int (length pool)) (nat n) s = Some (Inr (idxs, s'))
         \<and> length idxs = nat n
         \<and> (\<forall>i\<in>set idxs. 0 \<le> i \<and> i < int (length pool))
         \<and> generatePlain w opts (Num n) s = Some (Inr (pw, s'))
         \<and> pw = map (\<lambda>i. pool ! nat i) idxs
         \<and> int (length pw) = n
         \<and> set pw \<subseteq> set pool"
proof -
  have r: "0 < int (length pool)" using assms(2) by simp
  obtain idxs s' where
    sm: "samples w (int (length pool)) (nat n) s = Some (Inr (idxs, s'))"
    and len: "length idxs = nat n"
    and rng: "\<forall>i\<in>set idxs. 0 \<le> i \<and> i < int (length pool)"
    using samples_return[OF r, of w "nat n" s] assms(6,7) by blast
  let ?pw = "map (\<lambda>i. pool ! nat i) idxs"
  have ne: "buildCharPool opts \<noteq> []" using assms(1,2) by simp
  have cap: "length idxs \<le> maxStringLength w" using len assms(5) by simp
  have gp: "generatePlain w opts (Num n) s = Some (Inr (?pw, s'))"
    unfolding generatePlain_samples[OF ne assms(3,4)] assms(1)
    using sm by (simp add: join_charAt[OF rng cap])
  have "int (length ?pw) = n" using len assms(3) by simp
  moreover have "set ?pw \<subseteq> set pool"
  proof
    fix c assume "c \<in> set ?pw"
    then obtain i where i: "i \<in> set idxs" "c = pool ! nat i" by auto
    with rng have "nat i < length pool" by auto
    with i(2) show "c \<in> set pool" by simp
  qed
  ultimately show ?thesis using sm len rng gp by blast
qed

text \<open>
  Claim C7 as stated, for every non-negative length, fails at \<open>length = 2^32\<close>:
  \<^verbatim>\<open>new Array(4294967296)\<close> throws a \<^verbatim>\<open>RangeError\<close>, an array length being an
  unsigned 32-bit integer. Below that, \<^verbatim>\<open>join\<close> throws once the length passes the
  engine's limit (lemma \<open>generatePlain_too_long\<close> below).
\<close>

theorem generatePlain_length_2_32_rejected:
  "generatePlain (with_crypto (constant_draws 0)) all_classes (Num 4294967296) 0
     = Some (Inl InvalidArrayLength)"
proof -
  have "buildCharPool all_classes \<noteq> []"
    by (simp add: buildCharPool_empty_iff all_classes_def)
  then show ?thesis
    by (simp add: generatePlain_def newArray_def)
qed

text \<open>Sources that repeat one value, for the concrete runs.\<close>

lemma samples_constant_draws:
  assumes "0 < r" "uint d < limit r"
  shows "samples (with_crypto (constant_draws d)) r n s = Some (Inr (replicate n (uint d mod r), s + n))"
proof (induction n arbitrary: s)
  case 0
  show ?case by simp
next
  case (Suc n)
  have "drawLoop (constant_draws d) (limit r) s = Some (uint d, Suc s)"
    using assms(2) by (subst drawLoop.simps) (simp add: constant_draws_def)
  then have "secureRandomInt (with_crypto (constant_draws d)) r s = Some (Inr (uint d mod r, Suc s))"
    using assms(1) by (simp add: secureRandomInt_def with_crypto_def)
  then show ?case by (simp add: Suc.IH)
qed

lemma samples_constant_random:
  "samples (without_crypto (constant_random u)) r n s
     = Some (Inr (replicate n \<lfloor>to_double (u * of_int r)\<rfloor>, s + n))"
proof (induction n arbitrary: s)
  case 0
  show ?case by simp
next
  case (Suc n)
  have "secureRandomInt (without_crypto (constant_random u)) r s
      = Some (Inr (\<lfloor>to_double (u * of_int r)\<rfloor>, Suc s))"
    by (simp add: secureRandomInt_def without_crypto_def constant_random_def)
  then show ?case by (simp add: Suc.IH)
qed

lemma pool_all_classes:
  "buildCharPool all_classes =
     ''ABCDEFGHIJKLMNOPQRSTUVWXYZabcdefghijklmnopqrstuvwxyz0123456789!@#$%^&*()_+[]{}|;:,.<>?''"
  by (simp add: buildCharPool_def all_classes_def CHAR_sets_def Let_def)

lemma pool_lower_and_numbers:
  "buildCharPool lower_and_numbers = ''abcdefghijklmnopqrstuvwxyz0123456789''"
  by (simp add: buildCharPool_def lower_and_numbers_def CHAR_sets_def Let_def)

lemma limit_86: "limit 86 = 4294967280"
  by (simp add: limit_def bucketSize_def)

lemma floor_half_of_36: "\<lfloor>to_double (1 / 2 * rat_of_int 36)\<rfloor> = 18"
  using to_double_18 by simp

text \<open>The password that a source repeating one value gives.\<close>

lemma generatePlain_constant_draws:
  assumes "buildCharPool opts = pool" and "pool \<noteq> []"
    and "0 \<le> n" and "n \<le> 64"
    and "uint d < limit (int (length pool))"
  shows "generatePlain (with_crypto (constant_draws d)) opts (Num n) s
           = Some (Inr (replicate (nat n) (pool ! nat (uint d mod int (length pool))), s + nat n))"
proof -
  let ?w = "with_crypto (constant_draws d)"
  let ?i = "uint d mod int (length pool)"
  have r: "0 < int (length pool)" using assms(2) by simp
  have ne: "buildCharPool opts \<noteq> []" using assms(1,2) by simp
  have n32: "n < 4294967296" using assms(4) by simp
  have sm: "samples ?w (int (length pool)) (nat n) s = Some (Inr (replicate (nat n) ?i, s + nat n))"
    using r assms(5) by (rule samples_constant_draws)
  have i: "0 \<le> ?i" "?i < int (length pool)" using r by simp_all
  then have rng: "\<forall>i\<in>set (replicate (nat n) ?i). 0 \<le> i \<and> i < int (length pool)" by simp
  have cap: "length (replicate (nat n) ?i) \<le> maxStringLength ?w"
    using assms(4) by (simp add: with_crypto_def)
  note j = join_charAt[OF rng cap, simplified]
  show ?thesis
    unfolding generatePlain_samples[OF ne assms(3) n32] assms(1)
    by (simp add: sm j)
qed

lemma generatePlain_constant_random:
  assumes "buildCharPool opts = pool" and "pool \<noteq> []"
    and "0 \<le> n" and "n \<le> 64"
    and "\<lfloor>to_double (u * of_int (int (length pool)))\<rfloor> = i"
    and "0 \<le> i" and "i < int (length pool)"
  shows "generatePlain (without_crypto (constant_random u)) opts (Num n) s
           = Some (Inr (replicate (nat n) (pool ! nat i), s + nat n))"
proof -
  let ?w = "without_crypto (constant_random u)"
  have ne: "buildCharPool opts \<noteq> []" using assms(1,2) by simp
  have n32: "n < 4294967296" using assms(4) by simp
  have sm: "samples ?w (int (length pool)) (nat n) s = Some (Inr (replicate (nat n) i, s + nat n))"
    unfolding samples_constant_random assms(5) by simp
  have rng: "\<forall>j\<in>set (replicate (nat n) i). 0 \<le> j \<and> j < int (length pool)"
    using assms(6,7) by simp
  have cap: "length (replicate (nat n) i) \<le> maxStringLength ?w"
    using assms(4) by (simp add: without_crypto_def)
  note j = join_charAt[OF rng cap, simplified]
  show ?thesis
    unfolding generatePlain_samples[OF ne assms(3) n32] assms(1)
    by (simp add: sm j)
qed

theorem generatePlain_draws_from_pool_witness:
  "(\<exists>pw s'. generatePlain (with_crypto (constant_draws 0)) all_classes (Num 6) 0 = Some (Inr (pw, s'))
        \<and> int (length pw) = 6 \<and> set pw \<subseteq> set (buildCharPool all_classes))
   \<and> generatePlain (with_crypto (constant_draws 0)) all_classes (Num 6) 0
        = Some (Inr (''AAAAAA'', 6))
   \<and> (\<exists>pw s'. generatePlain (without_crypto (constant_random (1/2))) lower_and_numbers (Num 6) 0
          = Some (Inr (pw, s'))
        \<and> int (length pw) = 6 \<and> set pw \<subseteq> set (buildCharPool lower_and_numbers))
   \<and> generatePlain (without_crypto (constant_random (1/2))) lower_and_numbers (Num 6) 0
        = Some (Inr (''ssssss'', 6))"
proof -
  let ?w = "with_crypto (constant_draws 0)"
  let ?pool = "buildCharPool all_classes"
  have len: "int (length ?pool) = 86" by (simp add: pool_all_classes)
  have ne: "?pool \<noteq> []" by (simp add: pool_all_classes)
  have src: "\<forall>src. crypto ?w = Some src \<longrightarrow> (\<forall>s. \<exists>j\<ge>s. uint (src j) < limit (int (length ?pool)))"
    by (auto simp add: with_crypto_def len limit_86 constant_draws_def)
  have nocrypto: "crypto ?w = None \<longrightarrow>
      (\<forall>k. 0 \<le> mathRandom ?w k \<and> mathRandom ?w k \<le> 1 - 1 / 2 ^ 53)"
    by (simp add: with_crypto_def)
  have cap: "nat 6 \<le> maxStringLength ?w" by (simp add: with_crypto_def)
  have p1: "(0::int) \<le> 6" and p2: "(6::int) < 4294967296" by simp_all
  have a: "\<exists>pw s'. generatePlain ?w all_classes (Num 6) 0 = Some (Inr (pw, s'))
        \<and> int (length pw) = 6 \<and> set pw \<subseteq> set ?pool"
    using generatePlain_draws_from_pool[OF refl ne p1 p2 cap src nocrypto, of 0] by blast
  have b: "generatePlain ?w all_classes (Num 6) 0 = Some (Inr (''AAAAAA'', 6))"
  proof -
    have "uint (0::32 word) < limit (int (length ?pool))"
      by (simp add: pool_all_classes limit_86)
    from generatePlain_constant_draws[OF refl ne p1 _ this, of 0] show ?thesis
      by (simp add: pool_all_classes eval_nat_numeral)
  qed
  let ?w' = "without_crypto (constant_random (1/2))"
  let ?pool' = "buildCharPool lower_and_numbers"
  have len': "int (length ?pool') = 36" by (simp add: pool_lower_and_numbers)
  have ne': "?pool' \<noteq> []" by (simp add: pool_lower_and_numbers)
  have src': "\<forall>src. crypto ?w' = Some src \<longrightarrow> (\<forall>s. \<exists>j\<ge>s. uint (src j) < limit (int (length ?pool')))"
    by (simp add: without_crypto_def)
  have nocrypto': "crypto ?w' = None \<longrightarrow>
      (\<forall>k. 0 \<le> mathRandom ?w' k \<and> mathRandom ?w' k \<le> 1 - 1 / 2 ^ 53)"
    by (simp add: without_crypto_def constant_random_def)
  have cap': "nat 6 \<le> maxStringLength ?w'" by (simp add: without_crypto_def)
  have c: "\<exists>pw s'. generatePlain ?w' lower_and_numbers (Num 6) 0 = Some (Inr (pw, s'))
        \<and> int (length pw) = 6 \<and> set pw \<subseteq> set ?pool'"
    using generatePlain_draws_from_pool[OF refl ne' p1 p2 cap' src' nocrypto', of 0] by blast
  have d: "generatePlain ?w' lower_and_numbers (Num 6) 0 = Some (Inr (''ssssss'', 6))"
  proof -
    have "\<lfloor>to_double (1 / 2 * rat_of_int (int (length ?pool')))\<rfloor> = 18"
      using floor_half_of_36 by (simp add: pool_lower_and_numbers)
    from generatePlain_constant_random[OF refl ne' p1 _ this, of 0] show ?thesis
      by (simp add: pool_lower_and_numbers eval_nat_numeral)
  qed
  from a b c d show ?thesis by blast
qed

text \<open>
  Claim C2. \<open>generatePlain\<close> fails with \<open>EmptyPool\<close> if and only if all four
  classes are disabled, whatever the length, the random source and the exclude flag; and
  the pool is empty if and only if all four classes are disabled, so with one class
  enabled the exclude-ambiguous filter leaves the pool non-empty.
\<close>

theorem generatePlain_EmptyPool_iff:
  "(generatePlain w opts len s = Some (Inl EmptyPool))
      = (\<not> optUpper opts \<and> \<not> optLower opts \<and> \<not> optNumbers opts \<and> \<not> optSymbols opts)
   \<and> (buildCharPool opts = [])
      = (\<not> optUpper opts \<and> \<not> optLower opts \<and> \<not> optNumbers opts \<and> \<not> optSymbols opts)"
proof -
  have "(generatePlain w opts len s = Some (Inl EmptyPool)) = (buildCharPool opts = [])"
  proof
    assume "generatePlain w opts len s = Some (Inl EmptyPool)"
    from generatePlain_error[OF this] show "buildCharPool opts = []" by simp
  next
    assume "buildCharPool opts = []"
    then show "generatePlain w opts len s = Some (Inl EmptyPool)"
      by (simp add: generatePlain_def)
  qed
  then show ?thesis by (simp add: buildCharPool_empty_iff)
qed

theorem generatePlain_EmptyPool_iff_witness:
  "generatePlain (with_crypto (constant_draws 0)) no_classes (Num 16) 0 = Some (Inl EmptyPool)
   \<and> buildCharPool no_classes = []
   \<and> generatePlain (with_crypto (constant_draws 0)) (all_classes\<lparr>optExclude := True\<rparr>) (Num 16) 0
        \<noteq> Some (Inl EmptyPool)
   \<and> buildCharPool (all_classes\<lparr>optExclude := True\<rparr>) \<noteq> []"
  using generatePlain_EmptyPool_iff[of "with_crypto (constant_draws 0)" no_classes "Num 16" 0]
    generatePlain_EmptyPool_iff[of "with_crypto (constant_draws 0)"
      "all_classes\<lparr>optExclude := True\<rparr>" "Num 16" 0]
  by (simp add: no_classes_def all_classes_def)

text \<open>With a source that keeps delivering, the builder returns, and the length is right.\<close>

lemma generatePlain_returns_length:
  assumes "buildCharPool opts \<noteq> []" and "0 \<le> n" and "n < 4294967296"
    and "nat n \<le> maxStringLength w"
    and "\<forall>src. crypto w = Some src \<longrightarrow>
           (\<forall>s. \<exists>j\<ge>s. uint (src j) < limit (int (length (buildCharPool opts))))"
    and "crypto w = None \<longrightarrow> (\<forall>k. 0 \<le> mathRandom w k \<and> mathRandom w k \<le> 1 - 1 / 2 ^ 53)"
  shows "\<exists>pw s'. generatePlain w opts (Num n) s = Some (Inr (pw, s')) \<and> int (length pw) = n"
proof -
  let ?pool = "buildCharPool opts"
  have r: "0 < int (length ?pool)" using assms(1) by simp
  obtain idxs s' where
    sm: "samples w (int (length ?pool)) (nat n) s = Some (Inr (idxs, s'))"
    and len: "length idxs = nat n"
    and rng: "\<forall>i\<in>set idxs. 0 \<le> i \<and> i < int (length ?pool)"
    using samples_return[OF r, of w "nat n" s] assms(5,6) by blast
  have cap: "length idxs \<le> maxStringLength w" using len assms(4) by simp
  have "generatePlain w opts (Num n) s = Some (Inr (map (\<lambda>i. ?pool ! nat i) idxs, s'))"
    unfolding generatePlain_samples[OF assms(1,2,3)]
    using sm by (simp add: join_charAt[OF rng cap])
  moreover have "int (length (map (\<lambda>i. ?pool ! nat i) idxs)) = n"
    using len assms(2) by simp
  ultimately show ?thesis by blast
qed

text \<open>
  Past the engine's limit on strings the characters are still drawn, and then
  \<^verbatim>\<open>join\<close> throws: no password is returned.
\<close>

lemma generatePlain_too_long:
  assumes "buildCharPool opts \<noteq> []" and "0 \<le> n" and "n < 4294967296"
    and "maxStringLength w < nat n"
    and "\<forall>src. crypto w = Some src \<longrightarrow>
           (\<forall>s. \<exists>j\<ge>s. uint (src j) < limit (int (length (buildCharPool opts))))"
    and "crypto w = None \<longrightarrow> (\<forall>k. 0 \<le> mathRandom w k \<and> mathRandom w k \<le> 1 - 1 / 2 ^ 53)"
  shows "generatePlain w opts (Num n) s = Some (Inl InvalidStringLength)"
proof -
  let ?pool = "buildCharPool opts"
  have r: "0 < int (length ?pool)" using assms(1) by simp
  obtain idxs s' where
    sm: "samples w (int (length ?pool)) (nat n) s = Some (Inr (idxs, s'))"
    and len: "length idxs = nat n"
    and rng: "\<forall>i\<in>set idxs. 0 \<le> i \<and> i < int (length ?pool)"
    using samples_return[OF r, of w "nat n" s] assms(5,6) by blast
  have "join w (map (charAt ?pool) idxs) = Inl InvalidStringLength"
    using len assms(4) by (simp add: join_def concat_charAt[OF rng])
  then show ?thesis
    unfolding generatePlain_samples[OF assms(1,2,3)] using sm by simp
qed

text \<open>With the limit of V8, \<open>2^29 - 24\<close>, a length of \<open>2^29\<close> gives no password.\<close>

lemma generatePlain_2_29_too_long:
  "generatePlain (with_crypto (constant_draws 0)) all_classes (Num 536870912) 0
     = Some (Inl InvalidStringLength)"
proof (rule generatePlain_too_long)
  show "buildCharPool all_classes \<noteq> []" by (simp add: pool_all_classes)
  show "maxStringLength (with_crypto (constant_draws 0)) < nat 536870912"
    by (simp add: with_crypto_def)
  show "\<forall>src. crypto (with_crypto (constant_draws 0)) = Some src \<longrightarrow>
      (\<forall>s. \<exists>j\<ge>s. uint (src j) < limit (int (length (buildCharPool all_classes))))"
    by (auto simp add: with_crypto_def pool_all_classes limit_86 constant_draws_def)
  show "crypto (with_crypto (constant_draws 0)) = None \<longrightarrow>
      (\<forall>k. 0 \<le> mathRandom (with_crypto (constant_draws 0)) k
           \<and> mathRandom (with_crypto (constant_draws 0)) k \<le> 1 - 1 / 2 ^ 53)"
    by (simp add: with_crypto_def)
qed simp_all

subsection \<open>The handler\<close>

text \<open>
  How the handler reads the request: the number field counts unless it is
  \<^verbatim>\<open>NaN\<close> or 0, in which case the slider's value is taken. With no number in
  either field the length is \<^verbatim>\<open>NaN\<close> and \<^verbatim>\<open>new Array(NaN)\<close> throws.
\<close>

lemma js_or_zero: "js_or (Num 0) b = b"
  by (simp add: js_or_def)

lemma js_or_NaN: "js_or NaN b = b"
  by (simp add: js_or_def)

lemma js_or_nonzero: "n \<noteq> 0 \<Longrightarrow> js_or (Num n) b = Num n"
  by (simp add: js_or_def)

lemma clamp_Num: "Math_max 6 (Math_min 64 (Num n)) = Num (max 6 (min 64 n))"
  by (simp add: Math_max_def Math_min_def)

lemma generateHandler_unparsable:
  assumes "js_or lengthNumber lengthRange = NaN" "buildCharPool opts \<noteq> []"
  shows "generateHandler w opts lengthNumber lengthRange s
           = Some \<lparr> fieldValue = NaN, outcome = Inl InvalidArrayLength \<rparr>"
  using assms
  by (simp add: generateHandler_def generatePlain_def newArray_def Math_max_def Math_min_def)

text \<open>
  Claim C8, with the request as the handler reads it. The handler honours the integer in
  the number field when it is not 0, and the integer of the slider when the number field
  holds 0 or no number. That integer \<open>n\<close> is clamped: the handler returns (given an
  engine whose strings can have 64 characters and a random source that keeps
  delivering), writes \<open>max 6 (min 64 n)\<close> back into the fields, which is 6 for
  \<open>n < 6\<close>, 64 for \<open>n > 64\<close> and \<open>n\<close> in between, never fails on account of the
  length, and, unless the pool is empty, generates a password of exactly the clamped
  length. A 0 in the number field is not clamped to 6: the slider's value is clamped
  in its place.
\<close>

theorem generateHandler_clamps_length:
  assumes "(lengthNumber = Num n \<and> n \<noteq> 0)
         \<or> ((lengthNumber = Num 0 \<or> lengthNumber = NaN) \<and> lengthRange = Num n)"
    and "64 \<le> maxStringLength w"
    and "\<forall>src. crypto w = Some src \<and> buildCharPool opts \<noteq> [] \<longrightarrow>
           (\<forall>s. \<exists>j\<ge>s. uint (src j) < limit (int (length (buildCharPool opts))))"
    and "crypto w = None \<longrightarrow> (\<forall>k. 0 \<le> mathRandom w k \<and> mathRandom w k \<le> 1 - 1 / 2 ^ 53)"
  shows "\<exists>h. generateHandler w opts lengthNumber lengthRange s = Some h
           \<and> fieldValue h = Num (max 6 (min 64 n))
           \<and> 6 \<le> max 6 (min 64 n) \<and> max 6 (min 64 n) \<le> 64
           \<and> (n < 6 \<longrightarrow> fieldValue h = Num 6)
           \<and> (64 < n \<longrightarrow> fieldValue h = Num 64)
           \<and> (6 \<le> n \<and> n \<le> 64 \<longrightarrow> fieldValue h = Num n)
           \<and> outcome h \<noteq> Inl InvalidArrayLength
           \<and> outcome h \<noteq> Inl InvalidStringLength
           \<and> (buildCharPool opts = [] \<longrightarrow> outcome h = Inl EmptyPool)
           \<and> (buildCharPool opts \<noteq> [] \<longrightarrow>
                 (\<exists>pw s'. outcome h = Inr (pw, s') \<and> int (length pw) = max 6 (min 64 n)))"
proof -
  let ?c = "max 6 (min 64 n)"
  have req: "js_or lengthNumber lengthRange = Num n"
    using assms(1) by (auto simp add: js_or_def)
  have len: "Math_max 6 (Math_min 64 (js_or lengthNumber lengthRange)) = Num ?c"
    unfolding req by (rule clamp_Num)
  have cases: "n < 6 \<longrightarrow> ?c = 6" "64 < n \<longrightarrow> ?c = 64" "6 \<le> n \<and> n \<le> 64 \<longrightarrow> ?c = n"
    by simp_all
  show ?thesis
  proof (cases "buildCharPool opts = []")
    case True
    then have "generatePlain w opts (Num ?c) s = Some (Inl EmptyPool)"
      by (simp add: generatePlain_def)
    then have "generateHandler w opts lengthNumber lengthRange s
        = Some \<lparr> fieldValue = Num ?c, outcome = Inl EmptyPool \<rparr>"
      by (simp add: generateHandler_def len)
    with True cases show ?thesis by simp
  next
    case False
    have src: "\<forall>src. crypto w = Some src \<longrightarrow>
           (\<forall>s. \<exists>j\<ge>s. uint (src j) < limit (int (length (buildCharPool opts))))"
      using assms(3) False by blast
    have c0: "0 \<le> ?c" and c1: "?c < 4294967296" by simp_all
    have cap: "nat ?c \<le> maxStringLength w" using assms(2) by simp
    from generatePlain_returns_length[OF False c0 c1 cap src assms(4), of s]
    obtain pw s' where gp: "generatePlain w opts (Num ?c) s = Some (Inr (pw, s'))"
      and l: "int (length pw) = ?c" by blast
    from gp have "generateHandler w opts lengthNumber lengthRange s
        = Some \<lparr> fieldValue = Num ?c, outcome = Inr (pw, s') \<rparr>"
      by (simp add: generateHandler_def len)
    with False cases l show ?thesis by simp
  qed
qed

text \<open>
  Claim C8 as stated, with values below 6 becoming 6, fails for a 0 in the number field:
  with the slider at 20 the handler writes 20 into the fields and generates 20
  characters.
\<close>

theorem generateHandler_zero_takes_slider:
  "generateHandler (with_crypto (constant_draws 0)) all_classes (Num 0) (Num 20) 0
     = Some \<lparr> fieldValue = Num 20, outcome = Inr (''AAAAAAAAAAAAAAAAAAAA'', 20) \<rparr>"
proof -
  let ?w = "with_crypto (constant_draws 0)"
  let ?pool = "buildCharPool all_classes"
  have len: "int (length ?pool) = 86" by (simp add: pool_all_classes)
  have ne: "?pool \<noteq> []" by (simp add: pool_all_classes)
  have acc: "uint (0::32 word) < limit (int (length ?pool))"
    by (simp add: pool_all_classes limit_86)
  have p1: "(0::int) \<le> 20" by simp
  from generatePlain_constant_draws[OF refl ne p1 _ acc, of 0]
  have "generatePlain ?w all_classes (Num 20) 0 = Some (Inr (''AAAAAAAAAAAAAAAAAAAA'', 20))"
    by (simp add: pool_all_classes eval_nat_numeral)
  then show ?thesis
    by (simp add: generateHandler_def js_or_def Math_max_def Math_min_def)
qed

theorem generateHandler_clamps_length_witness:
  "(\<exists>h. generateHandler (with_crypto (constant_draws 0)) all_classes (Num 100) (Num 16) 0 = Some h
        \<and> fieldValue h = Num 64
        \<and> (\<exists>pw s'. outcome h = Inr (pw, s') \<and> int (length pw) = 64))
   \<and> (\<exists>h. generateHandler (with_crypto (constant_draws 0)) all_classes NaN (Num 3) 0 = Some h
        \<and> fieldValue h = Num 6
        \<and> (\<exists>pw s'. outcome h = Inr (pw, s') \<and> int (length pw) = 6))
   \<and> (\<exists>h. generateHandler (with_crypto (constant_draws 0)) all_classes (Num 0) (Num 20) 0 = Some h
        \<and> fieldValue h = Num 20
        \<and> (\<exists>pw s'. outcome h = Inr (pw, s') \<and> int (length pw) = 20))
   \<and> (\<exists>h. generateHandler (without_crypto (constant_random (1/2))) lower_and_numbers
          (Num 12) (Num 16) 0 = Some h
        \<and> fieldValue h = Num 12
        \<and> (\<exists>pw s'. outcome h = Inr (pw, s') \<and> int (length pw) = 12))"
proof -
  let ?w = "with_crypto (constant_draws 0)"
  have ne: "buildCharPool all_classes \<noteq> []" by (simp add: pool_all_classes)
  have cap: "64 \<le> maxStringLength ?w" by (simp add: with_crypto_def)
  have src: "\<forall>src. crypto ?w = Some src \<and> buildCharPool all_classes \<noteq> [] \<longrightarrow>
      (\<forall>s. \<exists>j\<ge>s. uint (src j) < limit (int (length (buildCharPool all_classes))))"
    by (auto simp add: with_crypto_def pool_all_classes limit_86 constant_draws_def)
  have nocrypto: "crypto ?w = None \<longrightarrow>
      (\<forall>k. 0 \<le> mathRandom ?w k \<and> mathRandom ?w k \<le> 1 - 1 / 2 ^ 53)"
    by (simp add: with_crypto_def)
  have r1: "(Num 100 = Num 100 \<and> (100::int) \<noteq> 0)
      \<or> ((Num 100 = Num 0 \<or> Num 100 = NaN) \<and> Num 16 = Num 100)" by simp
  have r2: "(NaN = Num 3 \<and> (3::int) \<noteq> 0)
      \<or> ((NaN = Num 0 \<or> NaN = NaN) \<and> Num 3 = Num 3)" by simp
  have r3: "(Num 0 = Num 20 \<and> (20::int) \<noteq> 0)
      \<or> ((Num 0 = Num 0 \<or> Num 0 = NaN) \<and> Num 20 = Num 20)" by simp
  let ?w' = "without_crypto (constant_random (1/2))"
  have ne': "buildCharPool lower_and_numbers \<noteq> []" by (simp add: pool_lower_and_numbers)
  have cap': "64 \<le> maxStringLength ?w'" by (simp add: without_crypto_def)
  have src': "\<forall>src. crypto ?w' = Some src \<and> buildCharPool lower_and_numbers \<noteq> [] \<longrightarrow>
      (\<forall>s. \<exists>j\<ge>s. uint (src j) < limit (int (length (buildCharPool lower_and_numbers))))"
    by (simp add: without_crypto_def)
  have nocrypto': "crypto ?w' = None \<longrightarrow>
      (\<forall>k. 0 \<le> mathRandom ?w' k \<and> mathRandom ?w' k \<le> 1 - 1 / 2 ^ 53)"
    by (simp add: without_crypto_def constant_random_def)
  have r4: "(Num 12 = Num 12 \<and> (12::int) \<noteq> 0)
      \<or> ((Num 12 = Num 0 \<or> Num 12 = NaN) \<and> Num 16 = Num 12)" by simp
  from generateHandler_clamps_length[OF r1 cap src nocrypto, of 0] ne
  have a: "\<exists>h. generateHandler ?w all_classes (Num 100) (Num 16) 0 = Some h
        \<and> fieldValue h = Num 64
        \<and> (\<exists>pw s'. outcome h = Inr (pw, s') \<and> int (length pw) = 64)"
    by simp blast
  from generateHandler_clamps_length[OF r2 cap src nocrypto, of 0] ne
  have b: "\<exists>h. generateHandler ?w all_classes NaN (Num 3) 0 = Some h
        \<and> fieldValue h = Num 6
        \<and> (\<exists>pw s'. outcome h = Inr (pw, s') \<and> int (length pw) = 6)"
    by simp blast
  from generateHandler_clamps_length[OF r3 cap src nocrypto, of 0] ne
  have c: "\<exists>h. generateHandler ?w all_classes (Num 0) (Num 20) 0 = Some h
        \<and> fieldValue h = Num 20
        \<and> (\<exists>pw s'. outcome h = Inr (pw, s') \<and> int (length pw) = 20)"
    by simp blast
  from generateHandler_clamps_length[OF r4 cap' src' nocrypto', of 0] ne'
  have d: "\<exists>h. generateHandler ?w' lower_and_numbers (Num 12) (Num 16) 0 = Some h
        \<and> fieldValue h = Num 12
        \<and> (\<exists>pw s'. outcome h = Inr (pw, s') \<and> int (length pw) = 12)"
    by simp blast
  from a b c d show ?thesis by blast
qed

subsection \<open>The strength estimator\<close>

lemma poolSize_card: "length (remdups (buildCharPool opts)) = card (set (buildCharPool opts))"
  by (simp add: length_remdups_card_conv)

text \<open>
  Claim C4. When the active pool has \<open>P > 0\<close> distinct symbols,
  \<open>estimateEntropyBits\<close> of a password is its length times \<open>log2 P\<close> (as real
  numbers); and the estimate depends on nothing but the password's length and the pool's
  distinct-symbol count: two passwords of the same length get the same estimate under
  pools of the same size, whatever their characters.
\<close>

theorem estimateEntropyBits_formula:
  "(0 < card (set (buildCharPool opts)) \<longrightarrow>
      estimateEntropyBits opts pw
        = real (length pw) * log 2 (real (card (set (buildCharPool opts)))))
   \<and> (card (set (buildCharPool opts)) = card (set (buildCharPool opts'))
        \<and> length pw = length pw'
      \<longrightarrow> estimateEntropyBits opts pw = estimateEntropyBits opts' pw')"
  by (simp add: estimateEntropyBits_def poolSize_card Let_def)

text \<open>\<open>2^516 < 36^100 < 2^518\<close>, so \<open>10 * log2 36\<close> lies between 51.6 and 51.8.\<close>

lemma log2_36_bounds: "516 < 100 * log 2 36" "100 * log 2 36 < 518"
proof -
  have eq: "log 2 ((36::real) ^ 100) = 100 * log 2 36"
    by (subst log_nat_power) simp_all
  have lo: "log 2 ((2::real) ^ 516) = 516"
    by (subst log_nat_power) simp_all
  have hi: "log 2 ((2::real) ^ 518) = 518"
    by (subst log_nat_power) simp_all
  have "(2::real) ^ 516 < 36 ^ 100" by simp
  then have "log 2 ((2::real) ^ 516) < log 2 ((36::real) ^ 100)"
    by (subst log_less_cancel_iff) simp_all
  then show "516 < 100 * log 2 36"
    by (simp only: eq lo)
  have "(36::real) ^ 100 < 2 ^ 518" by simp
  then have "log 2 ((36::real) ^ 100) < log 2 ((2::real) ^ 518)"
    by (subst log_less_cancel_iff) simp_all
  then show "100 * log 2 36 < 518"
    by (simp only: eq hi)
qed

lemma log2_36_coarse: "4 < log 2 36" "log 2 36 < 6"
  using log2_36_bounds by simp_all

lemma poolSize_lower_and_numbers:
  "length (buildCharPool lower_and_numbers) = 36"
  "length (remdups (buildCharPool lower_and_numbers)) = 36"
  "card (set (buildCharPool lower_and_numbers)) = 36"
proof -
  show l: "length (buildCharPool lower_and_numbers) = 36"
    by (simp add: pool_lower_and_numbers)
  have d: "distinct (buildCharPool lower_and_numbers)"
    by (subst buildCharPool_exclude) (simp add: replace_class_def distinct_unfiltered)
  from d l show "length (remdups (buildCharPool lower_and_numbers)) = 36"
    by (simp add: distinct_remdups_id)
  from d l show "card (set (buildCharPool lower_and_numbers)) = 36"
    by (simp add: distinct_card)
qed

theorem estimateEntropyBits_formula_witness:
  "0 < card (set (buildCharPool lower_and_numbers))
   \<and> estimateEntropyBits lower_and_numbers ''k7k7k7'' = 6 * log 2 36
   \<and> estimateEntropyBits lower_and_numbers ''k7k7k7''
       = estimateEntropyBits lower_and_numbers ''abc123''"
  using estimateEntropyBits_formula
    [of lower_and_numbers "''k7k7k7''" lower_and_numbers "''abc123''"]
  by (simp add: poolSize_lower_and_numbers)

text \<open>
  Claim C5. The label is fixed by ascending thresholds: below 28 bits \<open>Very weak\<close>,
  from 28 and below 40 \<open>Weak\<close>, from 40 and below 60 \<open>Moderate\<close>, from 60 and below
  80 \<open>Strong\<close>, from 80 \<open>Very strong\<close>. With lowercase and numbers enabled (and the
  exclude flag off) the pool has 36 symbols, a password of length 10 has
  \<open>10 * log2 36\<close> bits, which is within 0.1 of 51.7, and its label is \<open>Moderate\<close>.
\<close>

theorem strengthFromEntropy_thresholds:
  "(bits < 28 \<longrightarrow> label (strengthFromEntropy bits) = ''Very weak'')
   \<and> (28 \<le> bits \<and> bits < 40 \<longrightarrow> label (strengthFromEntropy bits) = ''Weak'')
   \<and> (40 \<le> bits \<and> bits < 60 \<longrightarrow> label (strengthFromEntropy bits) = ''Moderate'')
   \<and> (60 \<le> bits \<and> bits < 80 \<longrightarrow> label (strengthFromEntropy bits) = ''Strong'')
   \<and> (80 \<le> bits \<longrightarrow> label (strengthFromEntropy bits) = ''Very strong'')
   \<and> length (buildCharPool lower_and_numbers) = 36
   \<and> card (set (buildCharPool lower_and_numbers)) = 36
   \<and> (length pw = 10 \<longrightarrow>
         estimateEntropyBits lower_and_numbers pw = 10 * log 2 36
       \<and> \<bar>estimateEntropyBits lower_and_numbers pw - 51.7\<bar> < 0.1
       \<and> label (strengthFromEntropy (estimateEntropyBits lower_and_numbers pw)) = ''Moderate'')"
proof -
  have thresholds:
    "bits < 28 \<longrightarrow> label (strengthFromEntropy bits) = ''Very weak''"
    "28 \<le> bits \<and> bits < 40 \<longrightarrow> label (strengthFromEntropy bits) = ''Weak''"
    "40 \<le> bits \<and> bits < 60 \<longrightarrow> label (strengthFromEntropy bits) = ''Moderate''"
    "60 \<le> bits \<and> bits < 80 \<longrightarrow> label (strengthFromEntropy bits) = ''Strong''"
    "80 \<le> bits \<longrightarrow> label (strengthFromEntropy bits) = ''Very strong''"
    by (simp_all add: strengthFromEntropy_def)
  have scenario: "estimateEntropyBits lower_and_numbers pw = 10 * log 2 36
       \<and> \<bar>estimateEntropyBits lower_and_numbers pw - 51.7\<bar> < 0.1
       \<and> label (strengthFromEntropy (estimateEntropyBits lower_and_numbers pw)) = ''Moderate''"
    if "length pw = 10"
  proof -
    have e: "estimateEntropyBits lower_and_numbers pw = 10 * log 2 36"
      using that by (simp add: estimateEntropyBits_def poolSize_lower_and_numbers)
    have b: "51.6 < 10 * log 2 36" "10 * log 2 36 < 51.8"
      using log2_36_bounds by simp_all
    then have "\<bar>10 * log 2 36 - 51.7\<bar> < (0.1::real)" by linarith
    moreover have "label (strengthFromEntropy (10 * log 2 36)) = ''Moderate''"
      using b by (simp add: strengthFromEntropy_def)
    ultimately show ?thesis using e by simp
  qed
  from thresholds scenario poolSize_lower_and_numbers(1,3) show ?thesis by blast
qed

theorem strengthFromEntropy_thresholds_witness:
  "label (strengthFromEntropy 27.9) = ''Very weak''
   \<and> label (strengthFromEntropy 28) = ''Weak''
   \<and> label (strengthFromEntropy 40) = ''Moderate''
   \<and> label (strengthFromEntropy 60) = ''Strong''
   \<and> label (strengthFromEntropy 80) = ''Very strong''
   \<and> label (strengthFromEntropy (estimateEntropyBits lower_and_numbers ''a1b2c3d4e5'')) = ''Moderate''"
  using strengthFromEntropy_thresholds[of "27.9" "''a1b2c3d4e5''"]
    strengthFromEntropy_thresholds[of 28 "''a1b2c3d4e5''"]
    strengthFromEntropy_thresholds[of 40 "''a1b2c3d4e5''"]
    strengthFromEntropy_thresholds[of 60 "''a1b2c3d4e5''"]
    strengthFromEntropy_thresholds[of 80 "''a1b2c3d4e5''"]
  by simp

end
